theory Spec2Isabelle
  imports Complex_Main "HOL-Library.Sublist"
begin

section \<open>JSON values and JavaScript objects\<close>

text \<open>
  The service (\<^verbatim>\<open>Rest-API-Attest.js\<close>) moves JSON around: request bodies parsed by
  \<^verbatim>\<open>express.json()\<close>, the array kept in \<^verbatim>\<open>users.json\<close>, the response envelopes.
  A JavaScript number that comes out of \<^verbatim>\<open>JSON.parse\<close> is a finite double, hence a
  rational; the only arithmetic the program does on numbers is comparison. A string is
  its sequence of code units, an object the list of its own properties in insertion
  order (\<^verbatim>\<open>JSON.parse\<close> never yields the same key twice).
\<close>

datatype json =
    JNull
  | JBool bool
  | JNum rat
  | JStr string
  | JArr "json list"
  | JObj "(string \<times> json) list"

type_synonym props = "(string \<times> json) list"

text \<open>Reading an own property: \<^verbatim>\<open>o[k]\<close>, with \<open>None\<close> for \<^verbatim>\<open>undefined\<close>.\<close>

definition getOwn :: "props \<Rightarrow> string \<Rightarrow> json option" where
  "getOwn kvs k = map_of kvs k"

text \<open>Writing a property: an existing key keeps its place, a new key goes last.\<close>

fun setProp :: "string \<Rightarrow> json \<Rightarrow> props \<Rightarrow> props" where
  "setProp k v [] = [(k, v)]"
| "setProp k v ((k', v') # kvs) =
     (if k' = k then (k, v) # kvs else (k', v') # setProp k v kvs)"

text \<open>
  Object spread \<^verbatim>\<open>{...tgt, ...src}\<close>: the own properties of \<open>src\<close> are written
  onto the object under construction, in order.
\<close>

fun assign :: "props \<Rightarrow> props \<Rightarrow> props" where
  "assign tgt [] = tgt"
| "assign tgt ((k, v) # src) = assign (setProp k v tgt) src"

section \<open>The storage accessor\<close>

text \<open>
  \<^verbatim>\<open>users.json\<close> is either missing, unreadable for another reason (the error code is
  kept), or holds a text. \<^verbatim>\<open>JSON.parse\<close> makes an array of that text or throws a
  \<^verbatim>\<open>SyntaxError\<close>; the service itself only ever writes arrays, and a text that parses
  to something else is left out of the model. The elements of the array are any JSON
  values. A write replaces the whole file, or fails and leaves it alone.
\<close>

datatype js_error = SystemError string | SyntaxError | TypeError

datatype file_text = ArrayText "json list" | Malformed

datatype file_state = Missing | Unreadable string | Present file_text

record disk =
  contents :: file_state
  writable :: bool

fun error_code :: "js_error \<Rightarrow> string option" where
  "error_code (SystemError c) = Some c"
| "error_code SyntaxError = None"
| "error_code TypeError = None"

definition fs_readFile :: "disk \<Rightarrow> js_error + file_text" where
  "fs_readFile d =
     (case contents d of
        Missing \<Rightarrow> Inl (SystemError ''ENOENT'')
      | Unreadable c \<Rightarrow> Inl (SystemError c)
      | Present t \<Rightarrow> Inr t)"

definition fs_writeFile :: "json list \<Rightarrow> disk \<Rightarrow> (js_error + unit) \<times> disk" where
  "fs_writeFile us d =
     (if writable d then (Inr (), d\<lparr>contents := Present (ArrayText us)\<rparr>)
      else (Inl (SystemError ''EACCES''), d))"

definition JSON_parse :: "file_text \<Rightarrow> js_error + json list" where
  "JSON_parse t = (case t of ArrayText us \<Rightarrow> Inr us | Malformed \<Rightarrow> Inl SyntaxError)"

text \<open>The \<^verbatim>\<open>catch\<close> block of \<^verbatim>\<open>readUsersFile\<close>.\<close>

definition readUsersFile_catch :: "js_error \<Rightarrow> disk \<Rightarrow> (js_error + json list) \<times> disk" where
  "readUsersFile_catch e d =
     (if error_code e = Some ''ENOENT'' then
        (case fs_writeFile [] d of
           (Inl e', d') \<Rightarrow> (Inl e', d')
         | (Inr _, d') \<Rightarrow> (Inr [], d'))
      else (Inl e, d))"

definition readUsersFile :: "disk \<Rightarrow> (js_error + json list) \<times> disk" where
  "readUsersFile d =
     (case fs_readFile d of
        Inl e \<Rightarrow> readUsersFile_catch e d
      | Inr t \<Rightarrow>
          (case JSON_parse t of
             Inl e \<Rightarrow> readUsersFile_catch e d
           | Inr us \<Rightarrow> (Inr us, d)))"

definition writeUsersFile :: "json list \<Rightarrow> disk \<Rightarrow> (js_error + unit) \<times> disk" where
  "writeUsersFile us d = fs_writeFile us d"

section \<open>The platform\<close>

text \<open>
  Three library functions are taken as they are, as parameters of the model: Joi's test
  of an e-mail address, Joi's reading of a string as a number (the string does not look
  like a number, or its value cannot be kept exactly, or it is the number \<open>x\<close>), and
  \<^verbatim>\<open>String.prototype.toLowerCase\<close>. Every theorem holds for all three.
\<close>

datatype coercion = NotNumeric | Unsafe | Parsed rat

datatype platform =
  Platform (emailOk: "string \<Rightarrow> bool") (numberOf: "string \<Rightarrow> coercion")
    (toLowerCase: "string \<Rightarrow> string")

section \<open>The validator\<close>

text \<open>
  \<^verbatim>\<open>userSchema\<close> is a Joi object schema (Joi 17, the package \<^verbatim>\<open>joi\<close> with
  \<^verbatim>\<open>messages()\<close>) with \<^verbatim>\<open>abortEarly: false\<close> and every other preference at its
  default (\<^verbatim>\<open>convert: true\<close>, \<^verbatim>\<open>allowUnknown: false\<close>, \<^verbatim>\<open>stripUnknown: false\<close>).
  The value it validates is \<^verbatim>\<open>req.body\<close> as \<^verbatim>\<open>express.json()\<close> leaves it: an object
  or an array, the empty object when the request has no JSON body. The schema is kept as
  data, the way the source writes it, and \<open>validate_value\<close>, \<open>validate_keys\<close> and
  \<open>validate_object\<close> are Joi's validation of the types the schema uses. An error
  detail is its context key and its error type; the message Joi prints is a function of
  the two.
\<close>

datatype joi_code =
    AnyRequired | StringBase | StringEmpty | StringMin | StringMax | StringEmail
  | NumberBase | NumberUnsafe | NumberMin | NumberMax
  | ArrayBase | BooleanBase | ObjectBase | ObjectUnknown

datatype ctx_key = Key string | Index nat | NoKey

datatype detail = Detail (context_key: ctx_key) (dtype: joi_code)

datatype string_rule = StrMin nat | StrMax nat | StrEmail

datatype number_rule = NumMin rat | NumMax rat

datatype joi_type =
    JoiString "string_rule list"
  | JoiNumber "number_rule list"
  | JoiArray joi_type
  | JoiBoolean

datatype key_schema =
  KeySchema (kname: string) (ktype: joi_type) (required: bool) (dflt: "json option")

definition userSchema :: "key_schema list" where
  "userSchema =
     [KeySchema ''firstName'' (JoiString [StrMin 2, StrMax 50]) True None,
      KeySchema ''lastName'' (JoiString [StrMin 2, StrMax 50]) True None,
      KeySchema ''age'' (JoiNumber [NumMin 1, NumMax 120]) True None,
      KeySchema ''email'' (JoiString [StrEmail]) True None,
      KeySchema ''city'' (JoiString [StrMin 2, StrMax 50]) False None,
      KeySchema ''hobbies'' (JoiArray (JoiString [])) False (Some (JArr [])),
      KeySchema ''isActive'' JoiBoolean False (Some (JBool True))]"

fun check_string_rule :: "platform \<Rightarrow> string_rule \<Rightarrow> string \<Rightarrow> joi_code list" where
  "check_string_rule p (StrMin n) s = (if length s < n then [StringMin] else [])"
| "check_string_rule p (StrMax n) s = (if n < length s then [StringMax] else [])"
| "check_string_rule p StrEmail s = (if emailOk p s then [] else [StringEmail])"

fun check_number_rule :: "number_rule \<Rightarrow> rat \<Rightarrow> joi_code list" where
  "check_number_rule (NumMin l) x = (if x < l then [NumberMin] else [])"
| "check_number_rule (NumMax l) x = (if l < x then [NumberMax] else [])"

definition MAX_SAFE_INTEGER :: rat where
  "MAX_SAFE_INTEGER = 9007199254740991"

text \<open>A number: the safe-range test of the base type first, then every rule.\<close>

definition validate_number :: "number_rule list \<Rightarrow> ctx_key \<Rightarrow> rat \<Rightarrow> detail list \<times> json" where
  "validate_number rs k x =
     (if MAX_SAFE_INTEGER < x \<or> x < - MAX_SAFE_INTEGER then ([Detail k NumberUnsafe], JNum x)
      else (map (Detail k) (concat (map (\<lambda>r. check_number_rule r x) rs)), JNum x))"

text \<open>
  One value against one type: the errors and the converted value. A base error (wrong
  type, empty string) ends the validation of the value; the rules all run. An array with
  a single item type reports the item's own errors, under the item's index.
\<close>

fun validate_value :: "platform \<Rightarrow> joi_type \<Rightarrow> ctx_key \<Rightarrow> json \<Rightarrow> detail list \<times> json" where
  "validate_value p (JoiString rs) k v =
     (case v of
        JStr s \<Rightarrow>
          (if s = [] then ([Detail k StringEmpty], v)
           else (map (Detail k) (concat (map (\<lambda>r. check_string_rule p r s) rs)), v))
      | _ \<Rightarrow> ([Detail k StringBase], v))"
| "validate_value p (JoiNumber rs) k v =
     (case v of
        JNum x \<Rightarrow> validate_number rs k x
      | JStr s \<Rightarrow>
          (case numberOf p s of
             NotNumeric \<Rightarrow> ([Detail k NumberBase], v)
           | Unsafe \<Rightarrow> ([Detail k NumberUnsafe], v)
           | Parsed x \<Rightarrow> validate_number rs k x)
      | _ \<Rightarrow> ([Detail k NumberBase], v))"
| "validate_value p (JoiArray t) k v =
     (case v of
        JArr xs \<Rightarrow>
          (let rs = map (\<lambda>ix. validate_value p t (Index (fst ix)) (snd ix)) (enumerate 0 xs)
           in (concat (map fst rs), JArr (map snd rs)))
      | _ \<Rightarrow> ([Detail k ArrayBase], v))"
| "validate_value p JoiBoolean k v =
     (case v of
        JBool b \<Rightarrow> ([], v)
      | JStr s \<Rightarrow>
          (if toLowerCase p s = ''true'' then ([], JBool True)
           else if toLowerCase p s = ''false'' then ([], JBool False)
           else ([Detail k BooleanBase], v))
      | _ \<Rightarrow> ([Detail k BooleanBase], v))"

text \<open>
  One key of the object: a missing required key is an error, a missing optional key
  takes its default when it has one.
\<close>

definition validate_key :: "platform \<Rightarrow> props \<Rightarrow> key_schema \<Rightarrow> detail list \<times> json option" where
  "validate_key p val ks =
     (case getOwn val (kname ks) of
        None \<Rightarrow>
          (if required ks then ([Detail (Key (kname ks)) AnyRequired], None)
           else ([], dflt ks))
      | Some v \<Rightarrow>
          (case validate_value p (ktype ks) (Key (kname ks)) v of
             (es, v') \<Rightarrow> (es, Some v')))"

text \<open>The keys of the schema in order, on the copy \<open>val\<close> of the input that Joi returns.\<close>

fun validate_keys :: "platform \<Rightarrow> key_schema list \<Rightarrow> props \<Rightarrow> detail list \<times> props" where
  "validate_keys p [] val = ([], val)"
| "validate_keys p (ks # kss) val =
     (case validate_key p val ks of
        (es, r) \<Rightarrow>
          (case validate_keys p kss (case r of None \<Rightarrow> val | Some v \<Rightarrow> setProp (kname ks) v val) of
             (es', val') \<Rightarrow> (es @ es', val')))"

text \<open>The keys of the input that no key of the schema processed are not allowed.\<close>

definition unknown_keys :: "key_schema list \<Rightarrow> props \<Rightarrow> detail list" where
  "unknown_keys kss kvs =
     map (\<lambda>k. Detail (Key k) ObjectUnknown)
       (filter (\<lambda>k. k \<notin> set (map kname kss)) (map fst kvs))"

text \<open>\<^verbatim>\<open>schema.validate(body)\<close>: the error details, or the value when there are none.\<close>

definition validate_object :: "platform \<Rightarrow> key_schema list \<Rightarrow> json \<Rightarrow> detail list + props" where
  "validate_object p kss body =
     (case body of
        JObj kvs \<Rightarrow>
          (case validate_keys p kss kvs of
             (es, val) \<Rightarrow>
               (if es @ unknown_keys kss kvs = [] then Inr val
                else Inl (es @ unknown_keys kss kvs)))
      | _ \<Rightarrow> Inl [Detail NoKey ObjectBase])"

section \<open>Responses\<close>

datatype entry = Entry (field: ctx_key) (message: joi_code)

datatype notice =
    UserNotFound | ListFailed | GetFailed | CreateFailed | UpdateFailed | PatchFailed
  | DeleteFailed | UserDeleted

datatype envelope =
    Success json
  | SuccessList "json list" nat nat
  | SuccessNotice json notice
  | ErrorFields "entry list"
  | ErrorNotice notice

datatype response = Response (status: nat) (payload: envelope)

definition error_entries :: "detail list \<Rightarrow> entry list" where
  "error_entries ds = map (\<lambda>d. Entry (context_key d) (dtype d)) ds"

text \<open>The middleware \<^verbatim>\<open>validateUserData\<close>: the 422 response, or \<^verbatim>\<open>req.validatedData\<close>.\<close>

definition validateUserData :: "platform \<Rightarrow> json \<Rightarrow> response + props" where
  "validateUserData p body =
     (case validate_object p userSchema body of
        Inl ds \<Rightarrow> Inl (Response 422 (ErrorFields (error_entries ds)))
      | Inr val \<Rightarrow> Inr val)"

section \<open>Looking records up\<close>

text \<open>
  \<^verbatim>\<open>u.k\<close> on an element of the stored array: \<^verbatim>\<open>null\<close> throws a \<^verbatim>\<open>TypeError\<close>, an
  object gives its own property, any other value gives \<^verbatim>\<open>undefined\<close> for the keys
  the program reads (\<^verbatim>\<open>id\<close>, \<^verbatim>\<open>firstName\<close>, \<^verbatim>\<open>lastName\<close>, \<^verbatim>\<open>city\<close>, \<^verbatim>\<open>isActive\<close>).
\<close>

fun getProp :: "json \<Rightarrow> string \<Rightarrow> js_error + json option" where
  "getProp JNull k = Inl TypeError"
| "getProp (JObj kvs) k = Inr (getOwn kvs k)"
| "getProp (JBool b) k = Inr None"
| "getProp (JNum x) k = Inr None"
| "getProp (JStr s) k = Inr None"
| "getProp (JArr xs) k = Inr None"

text \<open>\<^verbatim>\<open>users.find(u => u.id === id)\<close> and \<^verbatim>\<open>users.findIndex(u => u.id === id)\<close>.\<close>

fun find_user :: "string \<Rightarrow> json list \<Rightarrow> js_error + json option" where
  "find_user i [] = Inr None"
| "find_user i (u # us) =
     (case getProp u ''id'' of
        Inl e \<Rightarrow> Inl e
      | Inr v \<Rightarrow> (if v = Some (JStr i) then Inr (Some u) else find_user i us))"

fun findIndex :: "string \<Rightarrow> json list \<Rightarrow> js_error + nat option" where
  "findIndex i [] = Inr None"
| "findIndex i (u # us) =
     (case getProp u ''id'' of
        Inl e \<Rightarrow> Inl e
      | Inr v \<Rightarrow>
          (if v = Some (JStr i) then Inr (Some 0)
           else (case findIndex i us of
                   Inl e \<Rightarrow> Inl e
                 | Inr None \<Rightarrow> Inr None
                 | Inr (Some n) \<Rightarrow> Inr (Some (Suc n)))))"

text \<open>
  The own properties that a spread \<^verbatim>\<open>{...x}\<close> copies. The handlers spread the element
  that \<open>findIndex\<close> found and a body that passed validation; both are objects.
\<close>

fun ownProps :: "json \<Rightarrow> props" where
  "ownProps (JObj kvs) = kvs"
| "ownProps JNull = []"
| "ownProps (JBool b) = []"
| "ownProps (JNum x) = []"
| "ownProps (JStr s) = []"
| "ownProps (JArr xs) = []"

section \<open>The handlers\<close>

text \<open>
  A handler takes the request, the values the environment hands it (the identifier that
  \<^verbatim>\<open>uuidv4()\<close> returns, the text of each \<^verbatim>\<open>new Date().toISOString()\<close>) and the disk,
  and returns the response and the disk. Every exception inside a handler's \<^verbatim>\<open>try\<close>
  becomes its 500 response.
\<close>

subsection \<open>GET /v1/users/:id\<close>

definition get_user :: "string \<Rightarrow> disk \<Rightarrow> response \<times> disk" where
  "get_user i d =
     (case readUsersFile d of
        (Inl e, d') \<Rightarrow> (Response 500 (ErrorNotice GetFailed), d')
      | (Inr users, d') \<Rightarrow>
          (case find_user i users of
             Inl e \<Rightarrow> (Response 500 (ErrorNotice GetFailed), d')
           | Inr None \<Rightarrow> (Response 404 (ErrorNotice UserNotFound), d')
           | Inr (Some u) \<Rightarrow> (Response 200 (Success u), d')))"

subsection \<open>POST /v1/users\<close>

text \<open>\<^verbatim>\<open>{id: generateUserId(), ...req.validatedData, createdAt: ..., updatedAt: ...}\<close>\<close>

definition newUser :: "string \<Rightarrow> props \<Rightarrow> string \<Rightarrow> string \<Rightarrow> props" where
  "newUser uuid val t1 t2 =
     setProp ''updatedAt'' (JStr t2)
       (setProp ''createdAt'' (JStr t1)
          (assign (setProp ''id'' (JStr uuid) []) val))"

definition post_user :: "platform \<Rightarrow> json \<Rightarrow> string \<Rightarrow> string \<Rightarrow> string \<Rightarrow> disk \<Rightarrow> response \<times> disk" where
  "post_user p body uuid t1 t2 d =
     (case validateUserData p body of
        Inl r \<Rightarrow> (r, d)
      | Inr val \<Rightarrow>
          (case readUsersFile d of
             (Inl e, d') \<Rightarrow> (Response 500 (ErrorNotice CreateFailed), d')
           | (Inr users, d') \<Rightarrow>
               (case writeUsersFile (users @ [JObj (newUser uuid val t1 t2)]) d' of
                  (Inl e, d'') \<Rightarrow> (Response 500 (ErrorNotice CreateFailed), d'')
                | (Inr _, d'') \<Rightarrow> (Response 201 (Success (JObj (newUser uuid val t1 t2))), d''))))"

subsection \<open>PUT /v1/users/:id\<close>

text \<open>\<^verbatim>\<open>{...users[userIndex], ...data, updatedAt: new Date().toISOString()}\<close>\<close>

definition updatedUser :: "json \<Rightarrow> props \<Rightarrow> string \<Rightarrow> props" where
  "updatedUser old data t =
     setProp ''updatedAt'' (JStr t) (assign (assign [] (ownProps old)) data)"

definition put_user :: "platform \<Rightarrow> string \<Rightarrow> json \<Rightarrow> string \<Rightarrow> disk \<Rightarrow> response \<times> disk" where
  "put_user p i body t d =
     (case validateUserData p body of
        Inl r \<Rightarrow> (r, d)
      | Inr val \<Rightarrow>
          (case readUsersFile d of
             (Inl e, d') \<Rightarrow> (Response 500 (ErrorNotice UpdateFailed), d')
           | (Inr users, d') \<Rightarrow>
               (case findIndex i users of
                  Inl e \<Rightarrow> (Response 500 (ErrorNotice UpdateFailed), d')
                | Inr None \<Rightarrow> (Response 404 (ErrorNotice UserNotFound), d')
                | Inr (Some n) \<Rightarrow>
                    (case writeUsersFile (users[n := JObj (updatedUser (users ! n) val t)]) d' of
                       (Inl e, d'') \<Rightarrow> (Response 500 (ErrorNotice UpdateFailed), d'')
                     | (Inr _, d'') \<Rightarrow>
                         (Response 200 (Success (JObj (updatedUser (users ! n) val t))), d'')))))"

subsection \<open>PATCH /v1/users/:id\<close>

text \<open>
  The record is looked up first; then \<^verbatim>\<open>req.body\<close> itself goes through
  \<^verbatim>\<open>userSchema.validate\<close>, and it is \<^verbatim>\<open>req.body\<close>, not the validated value, that is
  spread over the record.
\<close>

definition patch_user :: "platform \<Rightarrow> string \<Rightarrow> json \<Rightarrow> string \<Rightarrow> disk \<Rightarrow> response \<times> disk" where
  "patch_user p i body t d =
     (case readUsersFile d of
        (Inl e, d') \<Rightarrow> (Response 500 (ErrorNotice PatchFailed), d')
      | (Inr users, d') \<Rightarrow>
          (case findIndex i users of
             Inl e \<Rightarrow> (Response 500 (ErrorNotice PatchFailed), d')
           | Inr None \<Rightarrow> (Response 404 (ErrorNotice UserNotFound), d')
           | Inr (Some n) \<Rightarrow>
               (case validate_object p userSchema body of
                  Inl ds \<Rightarrow> (Response 422 (ErrorFields (error_entries ds)), d')
                | Inr val \<Rightarrow>
                    (case writeUsersFile
                            (users[n := JObj (updatedUser (users ! n) (ownProps body) t)]) d' of
                       (Inl e, d'') \<Rightarrow> (Response 500 (ErrorNotice PatchFailed), d'')
                     | (Inr _, d'') \<Rightarrow>
                         (Response 200
                            (Success (JObj (updatedUser (users ! n) (ownProps body) t))), d'')))))"

subsection \<open>DELETE /v1/users/:id\<close>

text \<open>\<^verbatim>\<open>users.splice(userIndex, 1)\<close> takes the element at \<open>n\<close> out of the array.\<close>

definition splice1 :: "nat \<Rightarrow> 'a list \<Rightarrow> 'a list" where
  "splice1 n xs = take n xs @ drop (Suc n) xs"

definition delete_user :: "string \<Rightarrow> disk \<Rightarrow> response \<times> disk" where
  "delete_user i d =
     (case readUsersFile d of
        (Inl e, d') \<Rightarrow> (Response 500 (ErrorNotice DeleteFailed), d')
      | (Inr users, d') \<Rightarrow>
          (case findIndex i users of
             Inl e \<Rightarrow> (Response 500 (ErrorNotice DeleteFailed), d')
           | Inr None \<Rightarrow> (Response 404 (ErrorNotice UserNotFound), d')
           | Inr (Some n) \<Rightarrow>
               (case writeUsersFile (splice1 n users) d' of
                  (Inl e, d'') \<Rightarrow> (Response 500 (ErrorNotice DeleteFailed), d'')
                | (Inr _, d'') \<Rightarrow> (Response 200 (SuccessNotice (users ! n) UserDeleted), d''))))"

subsection \<open>GET /v1/users\<close>

text \<open>
  A query parameter is missing, a string, or (when the query string repeats it or
  brackets it) an array or object, which is truthy and has no \<^verbatim>\<open>toLowerCase\<close>.
\<close>

datatype qval = QStr string | QNested

datatype query =
  Query (q_of: "qval option") (city_of: "qval option") (isActive_of: "qval option")

fun supplied :: "qval option \<Rightarrow> bool" where
  "supplied None = False"
| "supplied (Some (QStr s)) = (s \<noteq> [])"
| "supplied (Some QNested) = True"

fun truthy :: "json option \<Rightarrow> bool" where
  "truthy None = False"
| "truthy (Some JNull) = False"
| "truthy (Some (JBool b)) = b"
| "truthy (Some (JNum x)) = (x \<noteq> 0)"
| "truthy (Some (JStr s)) = (s \<noteq> [])"
| "truthy (Some (JArr xs)) = True"
| "truthy (Some (JObj kvs)) = True"

text \<open>\<^verbatim>\<open>x.toLowerCase()\<close>: only a string has the method.\<close>

fun lowerOf :: "platform \<Rightarrow> json option \<Rightarrow> js_error + string" where
  "lowerOf p (Some (JStr s)) = Inr (toLowerCase p s)"
| "lowerOf p None = Inl TypeError"
| "lowerOf p (Some JNull) = Inl TypeError"
| "lowerOf p (Some (JBool b)) = Inl TypeError"
| "lowerOf p (Some (JNum x)) = Inl TypeError"
| "lowerOf p (Some (JArr xs)) = Inl TypeError"
| "lowerOf p (Some (JObj kvs)) = Inl TypeError"

fun lowerQ :: "platform \<Rightarrow> qval \<Rightarrow> js_error + string" where
  "lowerQ p (QStr s) = Inr (toLowerCase p s)"
| "lowerQ p QNested = Inl TypeError"

text \<open>\<^verbatim>\<open>s.includes(t)\<close>: \<open>t\<close> occurs in \<open>s\<close> as a contiguous run.\<close>

definition str_includes :: "string \<Rightarrow> string \<Rightarrow> bool" where
  "str_includes s t = sublist t s"

text \<open>\<^verbatim>\<open>Array.prototype.filter\<close> with a callback that may throw.\<close>

fun filterE :: "('a \<Rightarrow> js_error + bool) \<Rightarrow> 'a list \<Rightarrow> js_error + 'a list" where
  "filterE f [] = Inr []"
| "filterE f (x # xs) =
     (case f x of
        Inl e \<Rightarrow> Inl e
      | Inr b \<Rightarrow>
          (case filterE f xs of
             Inl e \<Rightarrow> Inl e
           | Inr ys \<Rightarrow> Inr (if b then x # ys else ys)))"

text \<open>The three callbacks, with the evaluation order of \<^verbatim>\<open>||\<close> and \<^verbatim>\<open>&&\<close>.\<close>

definition name_matches :: "platform \<Rightarrow> string \<Rightarrow> json \<Rightarrow> js_error + bool" where
  "name_matches p searchTerm u =
     (case getProp u ''firstName'' of
        Inl e \<Rightarrow> Inl e
      | Inr f \<Rightarrow>
          (case lowerOf p f of
             Inl e \<Rightarrow> Inl e
           | Inr fl \<Rightarrow>
               (if str_includes fl searchTerm then Inr True
                else (case getProp u ''lastName'' of
                        Inl e \<Rightarrow> Inl e
                      | Inr l \<Rightarrow>
                          (case lowerOf p l of
                             Inl e \<Rightarrow> Inl e
                           | Inr ll \<Rightarrow> Inr (str_includes ll searchTerm))))))"

definition city_matches :: "platform \<Rightarrow> qval \<Rightarrow> json \<Rightarrow> js_error + bool" where
  "city_matches p c u =
     (case getProp u ''city'' of
        Inl e \<Rightarrow> Inl e
      | Inr uc \<Rightarrow>
          (if \<not> truthy uc then Inr False
           else (case lowerOf p uc of
                   Inl e \<Rightarrow> Inl e
                 | Inr ul \<Rightarrow>
                     (case lowerQ p c of
                        Inl e \<Rightarrow> Inl e
                      | Inr cl \<Rightarrow> Inr (ul = cl)))))"

definition active_matches :: "qval \<Rightarrow> json \<Rightarrow> js_error + bool" where
  "active_matches a u =
     (case getProp u ''isActive'' of
        Inl e \<Rightarrow> Inl e
      | Inr v \<Rightarrow> Inr (v = Some (JBool (a = QStr ''true''))))"

definition filter_q :: "platform \<Rightarrow> qval option \<Rightarrow> json list \<Rightarrow> js_error + json list" where
  "filter_q p qo users =
     (case qo of
        None \<Rightarrow> Inr users
      | Some qv \<Rightarrow>
          (if supplied (Some qv) then
             (case lowerQ p qv of
                Inl e \<Rightarrow> Inl e
              | Inr searchTerm \<Rightarrow> filterE (name_matches p searchTerm) users)
           else Inr users))"

definition filter_city :: "platform \<Rightarrow> qval option \<Rightarrow> json list \<Rightarrow> js_error + json list" where
  "filter_city p co users =
     (case co of
        None \<Rightarrow> Inr users
      | Some c \<Rightarrow> (if supplied (Some c) then filterE (city_matches p c) users else Inr users))"

definition filter_active :: "qval option \<Rightarrow> json list \<Rightarrow> js_error + json list" where
  "filter_active ao users =
     (case ao of
        None \<Rightarrow> Inr users
      | Some a \<Rightarrow> (if supplied (Some a) then filterE (active_matches a) users else Inr users))"

definition filteredUsers :: "platform \<Rightarrow> query \<Rightarrow> json list \<Rightarrow> js_error + json list" where
  "filteredUsers p qr users =
     (case filter_q p (q_of qr) users of
        Inl e \<Rightarrow> Inl e
      | Inr us1 \<Rightarrow>
          (case filter_city p (city_of qr) us1 of
             Inl e \<Rightarrow> Inl e
           | Inr us2 \<Rightarrow> filter_active (isActive_of qr) us2))"

definition list_users :: "platform \<Rightarrow> query \<Rightarrow> disk \<Rightarrow> response \<times> disk" where
  "list_users p qr d =
     (case readUsersFile d of
        (Inl e, d') \<Rightarrow> (Response 500 (ErrorNotice ListFailed), d')
      | (Inr users, d') \<Rightarrow>
          (case filteredUsers p qr users of
             Inl e \<Rightarrow> (Response 500 (ErrorNotice ListFailed), d')
           | Inr us \<Rightarrow> (Response 200 (SuccessList us (length us) (length us)), d')))"

section \<open>A platform to run examples on\<close>

text \<open>
  For evaluating the handlers on concrete requests: lower-casing of ASCII letters,
  strings of decimal digits read as numbers, and addresses of the shape
  \<^verbatim>\<open>local@domain.tld\<close>. The examples below use ASCII names, no numeric strings and the
  address \<^verbatim>\<open>a@b.com\<close>, on which these agree with the libraries.
\<close>

definition ascii_lower :: "string \<Rightarrow> string" where
  "ascii_lower s =
     map (\<lambda>c. case map_of (zip ''ABCDEFGHIJKLMNOPQRSTUVWXYZ'' ''abcdefghijklmnopqrstuvwxyz'') c of
                 None \<Rightarrow> c
               | Some l \<Rightarrow> l) s"

definition digit_of :: "char \<Rightarrow> nat option" where
  "digit_of c = map_of (zip ''0123456789'' [0, 1, 2, 3, 4, 5, 6, 7, 8, 9]) c"

fun digits_value :: "string \<Rightarrow> nat \<Rightarrow> nat option" where
  "digits_value [] n = Some n"
| "digits_value (c # s) n =
     (case digit_of c of None \<Rightarrow> None | Some k \<Rightarrow> digits_value s (10 * n + k))"

definition digits_number :: "string \<Rightarrow> coercion" where
  "digits_number s =
     (if s = [] then NotNumeric
      else (case digits_value s 0 of None \<Rightarrow> NotNumeric | Some n \<Rightarrow> Parsed (of_nat n)))"

definition plain_email :: "string \<Rightarrow> bool" where
  "plain_email s =
     (takeWhile (\<lambda>c. c \<noteq> CHR ''@'') s \<noteq> [] \<and>
      CHR ''.'' \<in> set (dropWhile (\<lambda>c. c \<noteq> CHR ''@'') s) \<and>
      last s \<noteq> CHR ''.'')"

definition sample :: platform where
  "sample = Platform plain_email digits_number ascii_lower"

section \<open>The vocabulary of the properties\<close>

text \<open>
  A stored element is a user record when it is an object whose names are strings and
  whose city, when it has one, is a non-empty string; the records that the create and
  update handlers persist are of this kind.
\<close>

fun is_string :: "json option \<Rightarrow> bool" where
  "is_string (Some (JStr s)) = True"
| "is_string v = False"

definition user_record :: "json \<Rightarrow> bool" where
  "user_record u =
     (case u of
        JObj kvs \<Rightarrow>
          is_string (getOwn kvs ''firstName'') \<and> is_string (getOwn kvs ''lastName'') \<and>
          (getOwn kvs ''city'' = None \<or>
           (is_string (getOwn kvs ''city'') \<and> getOwn kvs ''city'' \<noteq> Some (JStr [])))
      | _ \<Rightarrow> False)"

text \<open>
  The three filters of the list operation as the specification words them: \<open>q\<close> is a
  case-insensitive substring match on the first or the last name, \<open>city\<close> a
  case-insensitive exact match, \<open>isActive\<close> a match on the boolean. A request selects
  the records that pass every filter it supplies.
\<close>

definition q_match :: "platform \<Rightarrow> string \<Rightarrow> json \<Rightarrow> bool" where
  "q_match p s u =
     (case u of
        JObj kvs \<Rightarrow>
          (case getOwn kvs ''firstName'' of
             Some (JStr f) \<Rightarrow>
               (case getOwn kvs ''lastName'' of
                  Some (JStr l) \<Rightarrow>
                    sublist (toLowerCase p s) (toLowerCase p f) \<or>
                    sublist (toLowerCase p s) (toLowerCase p l)
                | _ \<Rightarrow> False)
           | _ \<Rightarrow> False)
      | _ \<Rightarrow> False)"

definition city_match :: "platform \<Rightarrow> string \<Rightarrow> json \<Rightarrow> bool" where
  "city_match p s u =
     (case u of
        JObj kvs \<Rightarrow>
          (case getOwn kvs ''city'' of
             Some (JStr c) \<Rightarrow> toLowerCase p c = toLowerCase p s
           | _ \<Rightarrow> False)
      | _ \<Rightarrow> False)"

definition active_match :: "bool \<Rightarrow> json \<Rightarrow> bool" where
  "active_match b u = (case u of JObj kvs \<Rightarrow> getOwn kvs ''isActive'' = Some (JBool b) | _ \<Rightarrow> False)"

definition wanted :: "platform \<Rightarrow> string option \<Rightarrow> string option \<Rightarrow> string option \<Rightarrow> json \<Rightarrow> bool" where
  "wanted p qs cs as u =
     ((case qs of None \<Rightarrow> True | Some s \<Rightarrow> s = [] \<or> q_match p s u) \<and>
      (case cs of None \<Rightarrow> True | Some s \<Rightarrow> s = [] \<or> city_match p s u) \<and>
      (case as of None \<Rightarrow> True | Some s \<Rightarrow> s = [] \<or> active_match (s = ''true'') u))"

text \<open>The names of the keys of \<^verbatim>\<open>userSchema\<close>.\<close>

definition fieldNames :: "string list" where
  "fieldNames = [''firstName'', ''lastName'', ''age'', ''email'', ''city'', ''hobbies'', ''isActive'']"










text \<open>An object as \<^verbatim>\<open>JSON.parse\<close> makes it: no key twice.\<close>

definition proper :: "json \<Rightarrow> bool" where
  "proper u = (case u of JObj kvs \<Rightarrow> distinct (map fst kvs) | _ \<Rightarrow> True)"

text \<open>The record carries the identifier \<open>i\<close>.\<close>

definition has_id :: "string \<Rightarrow> json \<Rightarrow> bool" where
  "has_id i u = (getProp u ''id'' = Inr (Some (JStr i)))"

section \<open>A collection to run examples on\<close>

text \<open>A request body with the required fields, and a stored record of the same person
  that also has a city.\<close>

definition ann_body :: json where
  "ann_body = JObj [(''firstName'', JStr ''Ann''), (''lastName'', JStr ''Lee''),
                    (''age'', JNum 30), (''email'', JStr ''a@b.com'')]"

definition ann :: json where
  "ann = JObj [(''id'', JStr ''u1''), (''firstName'', JStr ''Ann''), (''lastName'', JStr ''Lee''),
               (''age'', JNum 30), (''email'', JStr ''a@b.com''), (''city'', JStr ''Paris''),
               (''hobbies'', JArr []), (''isActive'', JBool True),
               (''createdAt'', JStr ''2024-05-01T10:00:00.000Z''),
               (''updatedAt'', JStr ''2024-05-01T10:00:00.000Z'')]"

text \<open>\<open>ann\<close> with \<open>updatedAt\<close> a day later, and two days later.\<close>

definition ann_later :: json where
  "ann_later = JObj [(''id'', JStr ''u1''), (''firstName'', JStr ''Ann''), (''lastName'', JStr ''Lee''),
               (''age'', JNum 30), (''email'', JStr ''a@b.com''), (''city'', JStr ''Paris''),
               (''hobbies'', JArr []), (''isActive'', JBool True),
               (''createdAt'', JStr ''2024-05-01T10:00:00.000Z''),
               (''updatedAt'', JStr ''2024-05-02T10:00:00.000Z'')]"

definition ann_latest :: json where
  "ann_latest = JObj [(''id'', JStr ''u1''), (''firstName'', JStr ''Ann''), (''lastName'', JStr ''Lee''),
               (''age'', JNum 30), (''email'', JStr ''a@b.com''), (''city'', JStr ''Paris''),
               (''hobbies'', JArr []), (''isActive'', JBool True),
               (''createdAt'', JStr ''2024-05-01T10:00:00.000Z''),
               (''updatedAt'', JStr ''2024-05-03T10:00:00.000Z'')]"

text \<open>Other stored records, with the fields the examples read.\<close>

definition bob :: json where
  "bob = JObj [(''id'', JStr ''u2''), (''firstName'', JStr ''Bob''), (''lastName'', JStr ''Ray''),
               (''city'', JStr ''PARIS''), (''isActive'', JBool False)]"

definition cyd :: json where
  "cyd = JObj [(''id'', JStr ''u3''), (''firstName'', JStr ''Cyd''), (''lastName'', JStr ''Paris''),
               (''city'', JStr ''Rome''), (''isActive'', JBool True)]"

definition dee :: json where
  "dee = JObj [(''id'', JStr ''u4''), (''firstName'', JStr ''Dee''), (''lastName'', JStr ''Kim''),
               (''isActive'', JBool True)]"

definition eve :: json where
  "eve = JObj [(''id'', JStr ''u5''), (''firstName'', JStr ''Eve''), (''lastName'', JStr ''Orr''),
               (''city'', JStr ''pARIS''), (''isActive'', JBool True)]"

text \<open>A stored record with a version-4 identifier, and what a POST of \<open>ann_body\<close> makes
  when the generator returns that identifier and the clock ticks between its two readings.\<close>

definition kim :: json where
  "kim = JObj [(''id'', JStr ''3b241101-e2bb-4255-8caf-4136c566a962''),
               (''firstName'', JStr ''Kim''), (''lastName'', JStr ''Roe''),
               (''age'', JNum 41), (''email'', JStr ''k@r.org''),
               (''hobbies'', JArr []), (''isActive'', JBool True),
               (''createdAt'', JStr ''2024-04-01T09:00:00.000Z''),
               (''updatedAt'', JStr ''2024-04-01T09:00:00.000Z'')]"

definition ann_created :: json where
  "ann_created = JObj [(''id'', JStr ''3b241101-e2bb-4255-8caf-4136c566a962''),
               (''firstName'', JStr ''Ann''), (''lastName'', JStr ''Lee''),
               (''age'', JNum 30), (''email'', JStr ''a@b.com''),
               (''hobbies'', JArr []), (''isActive'', JBool True),
               (''createdAt'', JStr ''2024-05-01T09:59:59.999Z''),
               (''updatedAt'', JStr ''2024-05-01T10:00:00.000Z'')]"

text \<open>Bodies for PATCH and POST: a city alone, the schema fields of \<open>ann\<close> with that
  city, and a body with a key the schema does not have.\<close>

definition city_only :: json where
  "city_only = JObj [(''city'', JStr ''Rome'')]"

definition ann_moved_fields :: json where
  "ann_moved_fields = JObj [(''firstName'', JStr ''Ann''), (''lastName'', JStr ''Lee''),
               (''age'', JNum 30), (''email'', JStr ''a@b.com''), (''city'', JStr ''Rome''),
               (''hobbies'', JArr []), (''isActive'', JBool True)]"

definition nick_body :: json where
  "nick_body = JObj [(''firstName'', JStr ''Ann''), (''lastName'', JStr ''Lee''),
                    (''age'', JNum 30), (''email'', JStr ''a@b.com''), (''nickname'', JStr ''annie'')]"



definition on_disk :: "json list \<Rightarrow> disk" where
  "on_disk us = \<lparr>contents = Present (ArrayText us), writable = True\<rparr>"

section \<open>Properties of the storage accessor\<close>



section \<open>Properties of objects\<close>

lemma getOwn_setProp:
  "getOwn (setProp k v kvs) k' = (if k' = k then Some v else getOwn kvs k')"
  by (induction kvs) (auto simp: getOwn_def)

lemma keys_setProp:
  "map fst (setProp k v kvs) = (if k \<in> set (map fst kvs) then map fst kvs else map fst kvs @ [k])"
  by (induction kvs) (auto simp: rev_image_eqI)

lemma distinct_setProp:
  "distinct (map fst kvs) \<Longrightarrow> distinct (map fst (setProp k v kvs))"
  by (simp add: keys_setProp)

lemma getOwn_assign:
  "getOwn (assign tgt src) k = (case getOwn (rev src) k of None \<Rightarrow> getOwn tgt k | Some v \<Rightarrow> Some v)"
proof (induction src arbitrary: tgt)
  case Nil
  then show ?case by (simp add: getOwn_def)
next
  case (Cons a src)
  obtain k' v' where a: "a = (k', v')" by (cases a)
  have "getOwn (rev (a # src)) k
      = (case getOwn (rev src) k of None \<Rightarrow> (if k = k' then Some v' else None) | Some v \<Rightarrow> Some v)"
    by (simp add: getOwn_def a map_add_def split: option.splits)
  with Cons.IH [of "setProp k' v' tgt"] show ?case
    by (simp add: a getOwn_setProp split: option.splits)
qed

lemma distinct_assign:
  "distinct (map fst tgt) \<Longrightarrow> distinct (map fst (assign tgt src))"
  by (induction src arbitrary: tgt) (auto simp: distinct_setProp)

lemma keys_assign_known:
  "set (map fst src) \<subseteq> set (map fst tgt) \<Longrightarrow> map fst (assign tgt src) = map fst tgt"
proof (induction src arbitrary: tgt)
  case Nil
  then show ?case by simp
next
  case (Cons a src)
  obtain k v where a: "a = (k, v)" by (cases a)
  with Cons.prems have k: "k \<in> set (map fst tgt)" by simp
  then have "map fst (setProp k v tgt) = map fst tgt" by (simp add: keys_setProp)
  with Cons.IH [of "setProp k v tgt"] Cons.prems show ?case by (simp add: a)
qed

lemma assign_fresh:
  "distinct (map fst (tgt @ src)) \<Longrightarrow> assign tgt src = tgt @ src"
proof (induction src arbitrary: tgt)
  case Nil
  then show ?case by simp
next
  case (Cons a src)
  obtain k v where a: "a = (k, v)" by (cases a)
  from Cons.prems a have "k \<notin> set (map fst tgt)" by auto
  then have s: "setProp k v tgt = tgt @ [(k, v)]" by (induction tgt) auto
  from Cons.prems have "distinct (map fst ((tgt @ [a]) @ src))" by simp
  with Cons.IH [of "tgt @ [a]"] s show ?case by (simp add: a)
qed

lemma props_eqI:
  "distinct (map fst xs) \<Longrightarrow> map fst xs = map fst ys \<Longrightarrow>
   (\<And>k. getOwn xs k = getOwn ys k) \<Longrightarrow> xs = ys"
proof (induction xs arbitrary: ys)
  case Nil
  then show ?case by simp
next
  case (Cons x xs)
  then obtain y ys' where ys: "ys = y # ys'" by (cases ys) auto
  obtain k v where x: "x = (k, v)" by (cases x)
  obtain k' v' where y: "y = (k', v')" by (cases y)
  from Cons.prems(2) ys x y have kk: "k' = k" and keys: "map fst xs = map fst ys'" by auto
  from Cons.prems(3) [of k] have vv: "v = v'" by (simp add: getOwn_def ys x y kk)
  have "getOwn xs j = getOwn ys' j" for j
  proof (cases "j = k")
    case True
    from Cons.prems(1) x have "k \<notin> fst ` set xs" by auto
    moreover from this keys have "k \<notin> fst ` set ys'" by (metis set_map)
    ultimately have "map_of xs k = None" and "map_of ys' k = None"
      by (simp_all add: map_of_eq_None_iff)
    then show ?thesis by (simp add: getOwn_def True)
  next
    case False
    with Cons.prems(3) [of j] show ?thesis by (simp add: getOwn_def ys x y kk)
  qed
  with Cons.IH [of ys'] Cons.prems(1) keys have "xs = ys'" by simp
  with ys x y kk vv show ?case by simp
qed

lemma keys_getOwn: "k \<in> fst ` set kvs \<longleftrightarrow> getOwn kvs k \<noteq> None"
  by (simp add: getOwn_def map_of_eq_None_iff)


lemma getOwn_rev: "distinct (map fst kvs) \<Longrightarrow> getOwn (rev kvs) k = getOwn kvs k"
proof (induction kvs)
  case Nil
  then show ?case by simp
next
  case (Cons a kvs)
  obtain k' v' where a: "a = (k', v')" by (cases a)
  from Cons.prems a have "k' \<notin> fst ` set kvs" by auto
  then have "map_of (rev kvs) k' = None" by (simp add: map_of_eq_None_iff)
  with Cons show ?case
    by (auto simp: getOwn_def a map_add_def split: option.splits)
qed

lemma getOwn_rev_None: "getOwn (rev kvs) k = None \<longleftrightarrow> getOwn kvs k = None"
  by (simp add: getOwn_def map_of_eq_None_iff)

lemma keys_assign_super: "set (map fst src) \<subseteq> set (map fst (assign tgt src))"
proof (induction src arbitrary: tgt)
  case Nil
  then show ?case by simp
next
  case (Cons a src)
  obtain k v where a: "a = (k, v)" by (cases a)
  have "getOwn (assign (setProp k v tgt) src) k \<noteq> None"
    by (simp add: getOwn_assign getOwn_setProp split: option.splits)
  then have "k \<in> fst ` set (assign (setProp k v tgt) src)" by (simp add: keys_getOwn)
  with Cons.IH [of "setProp k v tgt"] show ?case by (auto simp: a)
qed

lemma getOwn_Nil: "getOwn [] k = None"
  by (simp add: getOwn_def)

section \<open>Properties of the validator\<close>

lemma validate_key_setProp:
  "kname ks \<noteq> k \<Longrightarrow> validate_key p (setProp k v val) ks = validate_key p val ks"
  by (simp add: validate_key_def getOwn_setProp)

lemma validate_key_None:
  "snd (validate_key p val ks) = None \<Longrightarrow> getOwn val (kname ks) = None"
  by (auto simp: validate_key_def split: option.splits prod.splits)

lemma distinct_names_head:
  "distinct (map kname (ks # kss)) \<Longrightarrow> ks' \<in> set kss \<Longrightarrow> kname ks' \<noteq> kname ks"
  by (auto simp: image_iff)

lemma validate_keys_errors:
  "distinct (map kname kss) \<Longrightarrow>
   fst (validate_keys p kss val) = concat (map (\<lambda>ks. fst (validate_key p val ks)) kss)"
proof (induction kss arbitrary: val)
  case Nil
  then show ?case by simp
next
  case (Cons ks kss)
  obtain es r where r: "validate_key p val ks = (es, r)" by (cases "validate_key p val ks")
  let ?val' = "case r of None \<Rightarrow> val | Some v \<Rightarrow> setProp (kname ks) v val"
  have same: "validate_key p ?val' ks' = validate_key p val ks'" if "ks' \<in> set kss" for ks'
  proof -
    from Cons.prems that have "kname ks' \<noteq> kname ks" by (rule distinct_names_head)
    then show ?thesis by (cases r) (simp_all add: validate_key_setProp)
  qed
  have "fst (validate_keys p (ks # kss) val) = es @ fst (validate_keys p kss ?val')"
    by (simp add: r split: prod.splits)
  also have "\<dots> = es @ concat (map (\<lambda>ks. fst (validate_key p ?val' ks)) kss)"
    using Cons.IH [of ?val'] Cons.prems by simp
  also have "map (\<lambda>ks. fst (validate_key p ?val' ks)) kss = map (\<lambda>ks. fst (validate_key p val ks)) kss"
    using same by (intro map_cong) simp_all
  finally show ?case by (simp add: r)
qed

lemma validate_keys_other:
  "k \<notin> set (map kname kss) \<Longrightarrow> getOwn (snd (validate_keys p kss val)) k = getOwn val k"
proof (induction kss arbitrary: val)
  case Nil
  then show ?case by simp
next
  case (Cons ks kss)
  obtain es r where r: "validate_key p val ks = (es, r)" by (cases "validate_key p val ks")
  let ?val' = "case r of None \<Rightarrow> val | Some v \<Rightarrow> setProp (kname ks) v val"
  from Cons.prems have "getOwn ?val' k = getOwn val k"
    by (cases r) (simp_all add: getOwn_setProp)
  moreover have "snd (validate_keys p (ks # kss) val) = snd (validate_keys p kss ?val')"
    by (simp add: r split: prod.splits)
  ultimately show ?case using Cons.IH [of ?val'] Cons.prems by simp
qed

lemma validate_keys_value:
  "distinct (map kname kss) \<Longrightarrow> ks \<in> set kss \<Longrightarrow>
   getOwn (snd (validate_keys p kss val)) (kname ks) = snd (validate_key p val ks)"
proof (induction kss arbitrary: val)
  case Nil
  then show ?case by simp
next
  case (Cons ks' kss)
  obtain es r where r: "validate_key p val ks' = (es, r)" by (cases "validate_key p val ks'")
  let ?val' = "case r of None \<Rightarrow> val | Some v \<Rightarrow> setProp (kname ks') v val"
  have step: "snd (validate_keys p (ks' # kss) val) = snd (validate_keys p kss ?val')"
    by (simp add: r split: prod.splits)
  show ?case
  proof (cases "ks = ks'")
    case True
    from Cons.prems(1) have "kname ks' \<notin> set (map kname kss)" by simp
    then have "getOwn (snd (validate_keys p kss ?val')) (kname ks') = getOwn ?val' (kname ks')"
      by (rule validate_keys_other)
    also have "\<dots> = r"
      using validate_key_None [of p val ks'] by (cases r) (simp_all add: r getOwn_setProp)
    finally have "getOwn (snd (validate_keys p (ks' # kss) val)) (kname ks') = r"
      by (simp only: step)
    then show ?thesis by (simp only: True r snd_conv)
  next
    case False
    with Cons.prems have in_tl: "ks \<in> set kss" by simp
    with Cons.prems(1) have ne: "kname ks \<noteq> kname ks'" by (rule distinct_names_head)
    have "validate_key p ?val' ks = validate_key p val ks"
      using ne by (cases r) (simp_all add: validate_key_setProp)
    with Cons.IH [of ?val'] Cons.prems(1) in_tl
    have "getOwn (snd (validate_keys p kss ?val')) (kname ks) = snd (validate_key p val ks)"
      by simp
    then show ?thesis by (simp only: step)
  qed
qed

lemma names_userSchema: "map kname userSchema = fieldNames"
  by (simp add: userSchema_def fieldNames_def)

lemma distinct_userSchema: "distinct (map kname userSchema)"
  by (simp add: userSchema_def)

lemma validate_object_Inr:
  assumes "validate_object p kss body = Inr val"
  obtains kvs where "body = JObj kvs" "fst (validate_keys p kss kvs) = []"
    "unknown_keys kss kvs = []" "val = snd (validate_keys p kss kvs)"
  using assms
  by (cases body) (auto simp: validate_object_def split: prod.splits if_splits)

lemma unknown_keys_Nil: "unknown_keys kss kvs = [] \<longleftrightarrow> set (map fst kvs) \<subseteq> set (map kname kss)"
  by (auto simp: unknown_keys_def filter_empty_conv)

lemma validated_keys:
  assumes "validate_object p kss body = Inr val"
  shows "set (map fst val) \<subseteq> set (map kname kss)"
proof
  fix k assume "k \<in> set (map fst val)"
  then have k: "getOwn val k \<noteq> None" by (simp add: keys_getOwn)
  from assms obtain kvs where kvs: "unknown_keys kss kvs = []" "val = snd (validate_keys p kss kvs)"
    by (rule validate_object_Inr)
  show "k \<in> set (map kname kss)"
  proof (rule ccontr)
    assume n: "k \<notin> set (map kname kss)"
    then have "getOwn val k = getOwn kvs k" by (simp add: kvs validate_keys_other)
    with k have "k \<in> set (map fst kvs)" by (simp add: keys_getOwn)
    with kvs(1) n show False by (auto simp: unknown_keys_Nil)
  qed
qed

lemma validated_value:
  assumes "validate_object p kss (JObj kvs) = Inr val" and "distinct (map kname kss)"
    and "ks \<in> set kss"
  shows "validate_key p kvs ks = ([], getOwn val (kname ks))"
proof -
  from assms(1) have e: "fst (validate_keys p kss kvs) = []" and v: "val = snd (validate_keys p kss kvs)"
    by (auto elim: validate_object_Inr)
  from e assms(2,3) have "fst (validate_key p kvs ks) = []"
    by (auto simp: validate_keys_errors)
  moreover have "snd (validate_key p kvs ks) = getOwn val (kname ks)"
    using assms(2,3) by (simp add: v validate_keys_value)
  ultimately show ?thesis by (simp add: prod_eq_iff)
qed

lemma validated_present:
  assumes "validate_object p userSchema body = Inr val"
    and "ks \<in> set userSchema" and "required ks \<or> dflt ks \<noteq> None"
  shows "getOwn val (kname ks) \<noteq> None"
proof -
  from assms(1) obtain kvs where body: "body = JObj kvs" by (rule validate_object_Inr)
  from assms(1) body assms(2) have "validate_key p kvs ks = ([], getOwn val (kname ks))"
    by (simp add: validated_value distinct_userSchema)
  then have k: "validate_key p kvs ks = ([], getOwn val (kname ks))" .
  show ?thesis
  proof
    assume n: "getOwn val (kname ks) = None"
    with k have "snd (validate_key p kvs ks) = None" by simp
    then have "getOwn kvs (kname ks) = None" by (rule validate_key_None)
    with k n assms(3) show False by (auto simp: validate_key_def split: if_splits)
  qed
qed

lemma validateUserData_Inr:
  "validateUserData p body = Inr val \<longleftrightarrow> validate_object p userSchema body = Inr val"
  by (simp add: validateUserData_def split: sum.splits)

lemma validated_no_key:
  assumes "validate_object p userSchema body = Inr val" and "k \<notin> set fieldNames"
  shows "getOwn val k = None"
proof -
  from assms(1) have "set (map fst val) \<subseteq> set fieldNames"
    using validated_keys [of p userSchema body val] by (simp add: names_userSchema)
  with assms(2) have "k \<notin> fst ` set val" by auto
  then show ?thesis by (simp add: keys_getOwn)
qed

lemma validate_keys_distinct:
  "distinct (map fst val) \<Longrightarrow> distinct (map fst (snd (validate_keys p kss val)))"
proof (induction kss arbitrary: val)
  case Nil
  then show ?case by simp
next
  case (Cons ks kss)
  obtain es r where r: "validate_key p val ks = (es, r)" by (cases "validate_key p val ks")
  let ?val' = "case r of None \<Rightarrow> val | Some v \<Rightarrow> setProp (kname ks) v val"
  from Cons.prems have "distinct (map fst ?val')" by (cases r) (simp_all add: distinct_setProp)
  then have "distinct (map fst (snd (validate_keys p kss ?val')))" by (rule Cons.IH)
  moreover have "snd (validate_keys p (ks # kss) val) = snd (validate_keys p kss ?val')"
    by (simp add: r split: prod.splits)
  ultimately show ?case by (simp only:)
qed

lemma validated_distinct:
  assumes "validate_object p kss body = Inr val" and "proper body"
  shows "distinct (map fst val)"
proof -
  from assms(1) obtain kvs where "body = JObj kvs" "val = snd (validate_keys p kss kvs)"
    by (rule validate_object_Inr)
  with assms(2) show ?thesis by (simp add: proper_def validate_keys_distinct)
qed

lemma validated_fields:
  assumes "validate_object p userSchema body = Inr val"
  shows "getOwn val ''firstName'' \<noteq> None" and "getOwn val ''lastName'' \<noteq> None"
    and "getOwn val ''age'' \<noteq> None" and "getOwn val ''email'' \<noteq> None"
    and "getOwn val ''hobbies'' \<noteq> None" and "getOwn val ''isActive'' \<noteq> None"
  using
    validated_present [OF assms, of "KeySchema ''firstName'' (JoiString [StrMin 2, StrMax 50]) True None"]
    validated_present [OF assms, of "KeySchema ''lastName'' (JoiString [StrMin 2, StrMax 50]) True None"]
    validated_present [OF assms, of "KeySchema ''age'' (JoiNumber [NumMin 1, NumMax 120]) True None"]
    validated_present [OF assms, of "KeySchema ''email'' (JoiString [StrEmail]) True None"]
    validated_present [OF assms, of "KeySchema ''hobbies'' (JoiArray (JoiString [])) False (Some (JArr []))"]
    validated_present [OF assms, of "KeySchema ''isActive'' JoiBoolean False (Some (JBool True))"]
  by (simp_all add: userSchema_def)

section \<open>Properties of the list operation\<close>

lemma readUsersFile_on_disk: "readUsersFile (on_disk us) = (Inr us, on_disk us)"
  by (simp add: on_disk_def readUsersFile_def fs_readFile_def JSON_parse_def)

lemma is_string_iff: "is_string v \<longleftrightarrow> (\<exists>s. v = Some (JStr s))"
  by (cases v rule: is_string.cases) simp_all

lemma filterE_total:
  "(\<And>x. x \<in> set xs \<Longrightarrow> f x = Inr (g x)) \<Longrightarrow> filterE f xs = Inr (filter g xs)"
  by (induction xs) auto


lemma user_record_cases:
  assumes "user_record u"
  obtains kvs f l where "u = JObj kvs" "getOwn kvs ''firstName'' = Some (JStr f)"
    "getOwn kvs ''lastName'' = Some (JStr l)"
    "getOwn kvs ''city'' = None \<or> (\<exists>c. c \<noteq> [] \<and> getOwn kvs ''city'' = Some (JStr c))"
proof (cases u)
  case (JObj kvs)
  with assms that [of kvs] show ?thesis
    by (auto simp: user_record_def is_string_iff)
qed (use assms in \<open>simp_all add: user_record_def\<close>)

lemma name_matches_record:
  assumes "user_record u"
  shows "name_matches p (toLowerCase p s) u = Inr (q_match p s u)"
proof -
  from assms obtain kvs f l where "u = JObj kvs" "getOwn kvs ''firstName'' = Some (JStr f)"
    "getOwn kvs ''lastName'' = Some (JStr l)"
    by (rule user_record_cases)
  then show ?thesis
    by (simp add: name_matches_def q_match_def str_includes_def)
qed

lemma city_matches_record:
  assumes "user_record u"
  shows "city_matches p (QStr s) u = Inr (city_match p s u)"
proof -
  from assms obtain kvs where u: "u = JObj kvs"
    and c: "getOwn kvs ''city'' = None \<or> (\<exists>c. c \<noteq> [] \<and> getOwn kvs ''city'' = Some (JStr c))"
    by (rule user_record_cases)
  from c show ?thesis
  proof
    assume "getOwn kvs ''city'' = None"
    with u show ?thesis by (simp add: city_matches_def city_match_def)
  next
    assume "\<exists>c. c \<noteq> [] \<and> getOwn kvs ''city'' = Some (JStr c)"
    then obtain c where "c \<noteq> []" "getOwn kvs ''city'' = Some (JStr c)" by blast
    with u show ?thesis by (simp add: city_matches_def city_match_def)
  qed
qed

lemma active_matches_record:
  assumes "user_record u"
  shows "active_matches (QStr s) u = Inr (active_match (s = ''true'') u)"
proof -
  from assms obtain kvs where "u = JObj kvs" by (rule user_record_cases)
  then show ?thesis by (simp add: active_matches_def active_match_def)
qed

lemma filter_q_records:
  assumes "\<forall>u\<in>set users. user_record u"
  shows "filter_q p (map_option QStr qs) users
    = Inr (filter (\<lambda>u. case qs of None \<Rightarrow> True | Some s \<Rightarrow> s = [] \<or> q_match p s u) users)"
proof (cases qs)
  case None
  then show ?thesis by (simp add: filter_q_def)
next
  case (Some s)
  show ?thesis
  proof (cases "s = []")
    case True
    with Some show ?thesis by (simp add: filter_q_def)
  next
    case False
    have "filterE (name_matches p (toLowerCase p s)) users = Inr (filter (q_match p s) users)"
      using assms by (intro filterE_total) (simp add: name_matches_record)
    with Some False show ?thesis by (simp add: filter_q_def)
  qed
qed

lemma filter_city_records:
  assumes "\<forall>u\<in>set users. user_record u"
  shows "filter_city p (map_option QStr cs) users
    = Inr (filter (\<lambda>u. case cs of None \<Rightarrow> True | Some s \<Rightarrow> s = [] \<or> city_match p s u) users)"
proof (cases cs)
  case None
  then show ?thesis by (simp add: filter_city_def)
next
  case (Some s)
  show ?thesis
  proof (cases "s = []")
    case True
    with Some show ?thesis by (simp add: filter_city_def)
  next
    case False
    have "filterE (city_matches p (QStr s)) users = Inr (filter (city_match p s) users)"
      using assms by (intro filterE_total) (simp add: city_matches_record)
    with Some False show ?thesis by (simp add: filter_city_def)
  qed
qed

lemma filter_active_records:
  assumes "\<forall>u\<in>set users. user_record u"
  shows "filter_active (map_option QStr as) users
    = Inr (filter (\<lambda>u. case as of None \<Rightarrow> True | Some s \<Rightarrow> s = [] \<or> active_match (s = ''true'') u) users)"
proof (cases as)
  case None
  then show ?thesis by (simp add: filter_active_def)
next
  case (Some s)
  show ?thesis
  proof (cases "s = []")
    case True
    with Some show ?thesis by (simp add: filter_active_def)
  next
    case False
    have "filterE (active_matches (QStr s)) users = Inr (filter (active_match (s = ''true'')) users)"
      using assms by (intro filterE_total) (simp add: active_matches_record)
    with Some False show ?thesis by (simp add: filter_active_def)
  qed
qed

lemma filteredUsers_records:
  assumes "\<forall>u\<in>set users. user_record u"
  shows "filteredUsers p (Query (map_option QStr qs) (map_option QStr cs) (map_option QStr as)) users
    = Inr (filter (wanted p qs cs as) users)"
proof -
  let ?A = "\<lambda>u. case qs of None \<Rightarrow> True | Some s \<Rightarrow> s = [] \<or> q_match p s u"
  let ?B = "\<lambda>u. case cs of None \<Rightarrow> True | Some s \<Rightarrow> s = [] \<or> city_match p s u"
  let ?C = "\<lambda>u. case as of None \<Rightarrow> True | Some s \<Rightarrow> s = [] \<or> active_match (s = ''true'') u"
  have 1: "filter_q p (map_option QStr qs) users = Inr (filter ?A users)"
    using assms by (rule filter_q_records)
  have 2: "filter_city p (map_option QStr cs) (filter ?A users) = Inr (filter ?B (filter ?A users))"
    using assms by (intro filter_city_records) simp
  have 3: "filter_active (map_option QStr as) (filter ?B (filter ?A users))
      = Inr (filter ?C (filter ?B (filter ?A users)))"
    using assms by (intro filter_active_records) simp
  have "filter ?C (filter ?B (filter ?A users)) = filter (wanted p qs cs as) users"
    by (auto simp: wanted_def intro!: filter_cong)
  with 1 2 3 show ?thesis by (simp add: filteredUsers_def)
qed

text \<open>
  Claim C6, as the code has it. When the stored collection consists of user records and
  the request gives each of \<open>q\<close>, \<open>city\<close> and \<open>isActive\<close> at most once, as a
  string, the list operation answers 200 with exactly the stored records, in stored
  order, that pass every supplied filter: \<open>q\<close> as a case-insensitive substring of the
  first or last name, \<open>city\<close> as a case-insensitive exact match, \<open>isActive\<close> on the
  boolean; the two counts of the answer are the length of that sequence. (An empty
  parameter counts as not supplied.) In particular \<^verbatim>\<open>?city=Paris&isActive=true\<close>
  returns the active users whose city is Paris in any letter case. A request that gives
  \<open>q\<close> as an array or object is answered 500 whatever the collection.
\<close>

theorem list_users_filters:
  assumes "readUsersFile d = (Inr users, d')"
    and "\<forall>u\<in>set users. user_record u"
  shows "list_users p (Query (map_option QStr qs) (map_option QStr cs) (map_option QStr as)) d
      = (Response 200
           (SuccessList (filter (wanted p qs cs as) users)
              (length (filter (wanted p qs cs as) users))
              (length (filter (wanted p qs cs as) users))), d') \<and>
    list_users p (Query (Some QNested) co ao) d = (Response 500 (ErrorNotice ListFailed), d')"
  using assms by (simp add: list_users_def filteredUsers_records) (simp add: filteredUsers_def filter_q_def)

theorem list_users_filters_witness:
  "list_users sample (Query None (Some (QStr ''Paris'')) (Some (QStr ''true'')))
     (on_disk [ann, bob, cyd, dee, eve])
   = (Response 200 (SuccessList [ann, eve] 2 2), on_disk [ann, bob, cyd, dee, eve]) \<and>
   list_users sample (Query (Some QNested) None (Some (QStr ''true'')))
     (on_disk [ann, bob, cyd, dee, eve])
   = (Response 500 (ErrorNotice ListFailed), on_disk [ann, bob, cyd, dee, eve])"
  using list_users_filters [of "on_disk [ann, bob, cyd, dee, eve]" "[ann, bob, cyd, dee, eve]"
      "on_disk [ann, bob, cyd, dee, eve]" sample None "Some ''Paris''" "Some ''true''"
      None "Some (QStr ''true'')"]
  by (simp add: readUsersFile_on_disk user_record_def wanted_def city_match_def active_match_def
      ann_def bob_def cyd_def dee_def eve_def getOwn_def sample_def ascii_lower_def)

text \<open>
  The claim as the specification words it, for every list request, fails: a query
  string that repeats \<open>q\<close> (or brackets it) makes \<open>q\<close> an array, the handler calls
  \<^verbatim>\<open>toLowerCase\<close> on it, and the answer is 500 with no records; the same happens with
  \<open>city\<close> as soon as a stored record has a city.
\<close>

theorem list_users_repeated_parameter:
  "list_users sample (Query (Some QNested) None None) (on_disk [ann, bob])
     = (Response 500 (ErrorNotice ListFailed), on_disk [ann, bob]) \<and>
   list_users sample (Query None (Some QNested) None) (on_disk [ann, bob])
     = (Response 500 (ErrorNotice ListFailed), on_disk [ann, bob])"
  by (simp add: list_users_def readUsersFile_on_disk filteredUsers_def filter_q_def
      filter_city_def city_matches_def ann_def getOwn_def sample_def ascii_lower_def)







section \<open>Properties of the delete operation\<close>

lemma findIndex_Some:
  "findIndex i us = Inr (Some n) \<Longrightarrow> n < length us \<and> has_id i (us ! n)"
proof (induction us arbitrary: n)
  case Nil
  then show ?case by simp
next
  case (Cons u us)
  then show ?case
    by (auto simp: has_id_def nth_Cons' split: sum.splits if_splits option.splits)
qed

lemma find_user_absent:
  "JNull \<notin> set us \<Longrightarrow> filter (has_id i) us = [] \<Longrightarrow> find_user i us = Inr None"
proof (induction us)
  case Nil
  then show ?case by simp
next
  case (Cons u us)
  then show ?case
    by (cases u) (auto simp: has_id_def split: if_splits)
qed

lemma findIndex_first:
  "findIndex i us = Inr (Some n) \<Longrightarrow> m < n \<Longrightarrow> \<not> has_id i (us ! m)"
proof (induction us arbitrary: n m)
  case Nil
  then show ?case by simp
next
  case (Cons u us)
  from Cons.prems obtain v k where v: "getProp u ''id'' = Inr v" "v \<noteq> Some (JStr i)"
    and k: "findIndex i us = Inr (Some k)" and n: "n = Suc k"
    by (auto split: sum.splits if_splits option.splits)
  show ?case
  proof (cases m)
    case 0
    with v show ?thesis by (simp add: has_id_def)
  next
    case (Suc j)
    with Cons.prems n have "j < k" by simp
    with Cons.IH [OF k] Suc show ?thesis by simp
  qed
qed

lemma find_user_present:
  "JNull \<notin> set us \<Longrightarrow> filter (has_id i) us \<noteq> [] \<Longrightarrow>
   \<exists>u. has_id i u \<and> find_user i us = Inr (Some u)"
proof (induction us)
  case Nil
  then show ?case by simp
next
  case (Cons a us)
  show ?case
  proof (cases "has_id i a")
    case True
    then show ?thesis by (auto simp: has_id_def)
  next
    case False
    with Cons.prems have "filter (has_id i) us \<noteq> []" and "JNull \<notin> set us" by auto
    with Cons.IH obtain u where "has_id i u" "find_user i us = Inr (Some u)" by blast
    moreover from Cons.prems obtain v where "getProp a ''id'' = Inr v" by (cases a) auto
    ultimately show ?thesis using False by (auto simp: has_id_def)
  qed
qed

lemma others_removed:
  assumes "n < length us" and "has_id i (us ! n)"
  shows "length (filter (has_id i) (splice1 n us)) + 1 = length (filter (has_id i) us)"
proof -
  have "us = take n us @ us ! n # drop (Suc n) us"
    using assms(1) by (simp add: id_take_nth_drop)
  then have "filter (has_id i) us
      = filter (has_id i) (take n us) @ us ! n # filter (has_id i) (drop (Suc n) us)"
    using assms(2) by (metis filter.simps(2) filter_append)
  then have "length (filter (has_id i) us)
      = length (filter (has_id i) (take n us)) + 1 + length (filter (has_id i) (drop (Suc n) us))"
    by simp
  then show ?thesis by (simp add: splice1_def)
qed

text \<open>
  Claim C7, as the code has it. When the identifier is found in the collection, at
  index \<open>n\<close>, and the disk takes the write, DELETE answers 200 with the record at
  \<open>n\<close>, which is the first that carries the identifier, and persists the collection
  without that one element, the others in their order. A GET of the same identifier
  then answers 404 when no other stored record carried it, and otherwise 200 with
  another record that carries it (the stored elements being non-null).
\<close>

theorem delete_then_get:
  assumes "readUsersFile d = (Inr users, d0)"
    and "writable d0"
    and "findIndex i users = Inr (Some n)"
  shows "n < length users \<and> has_id i (users ! n) \<and> filter (has_id i) (take n users) = [] \<and>
         delete_user i d
           = (Response 200 (SuccessNotice (users ! n) UserDeleted),
              d0\<lparr>contents := Present (ArrayText (take n users @ drop (Suc n) users))\<rparr>) \<and>
         (JNull \<notin> set users \<and> length (filter (has_id i) users) = 1 \<longrightarrow>
            get_user i (d0\<lparr>contents := Present (ArrayText (take n users @ drop (Suc n) users))\<rparr>)
              = (Response 404 (ErrorNotice UserNotFound),
                 d0\<lparr>contents := Present (ArrayText (take n users @ drop (Suc n) users))\<rparr>)) \<and>
         (JNull \<notin> set users \<and> 1 < length (filter (has_id i) users) \<longrightarrow>
            (\<exists>u. has_id i u \<and>
                 get_user i (d0\<lparr>contents := Present (ArrayText (take n users @ drop (Suc n) users))\<rparr>)
                   = (Response 200 (Success u),
                      d0\<lparr>contents := Present (ArrayText (take n users @ drop (Suc n) users))\<rparr>)))"
proof -
  from assms(3) have lt: "n < length users" and id: "has_id i (users ! n)"
    using findIndex_Some by blast+
  have first: "filter (has_id i) (take n users) = []"
  proof -
    have "\<not> has_id i u" if "u \<in> set (take n users)" for u
    proof -
      from that obtain m where "m < length (take n users)" "take n users ! m = u"
        by (auto simp: in_set_conv_nth)
      with lt have "m < n" "users ! m = u" by simp_all
      with findIndex_first [OF assms(3)] show ?thesis by blast
    qed
    then show ?thesis by (auto simp: filter_empty_conv)
  qed
  let ?d1 = "d0\<lparr>contents := Present (ArrayText (splice1 n users))\<rparr>"
  have del: "delete_user i d = (Response 200 (SuccessNotice (users ! n) UserDeleted), ?d1)"
    using assms by (simp add: delete_user_def writeUsersFile_def fs_writeFile_def)
  have sub: "set (splice1 n users) \<subseteq> set users"
    by (auto simp: splice1_def dest: in_set_takeD in_set_dropD)
  have rest: "length (filter (has_id i) (splice1 n users)) + 1 = length (filter (has_id i) users)"
    using lt id by (rule others_removed)
  have read: "readUsersFile ?d1 = (Inr (splice1 n users), ?d1)"
    by (simp add: readUsersFile_def fs_readFile_def JSON_parse_def)
  have gone: "get_user i ?d1 = (Response 404 (ErrorNotice UserNotFound), ?d1)"
    if "JNull \<notin> set users \<and> length (filter (has_id i) users) = 1"
  proof -
    from that sub have "JNull \<notin> set (splice1 n users)" by blast
    moreover from that rest have "filter (has_id i) (splice1 n users) = []" by simp
    ultimately have "find_user i (splice1 n users) = Inr None" by (rule find_user_absent)
    with read show ?thesis by (simp add: get_user_def)
  qed
  have still: "\<exists>u. has_id i u \<and> get_user i ?d1 = (Response 200 (Success u), ?d1)"
    if "JNull \<notin> set users \<and> 1 < length (filter (has_id i) users)"
  proof -
    from that sub have "JNull \<notin> set (splice1 n users)" by blast
    moreover from that rest have "filter (has_id i) (splice1 n users) \<noteq> []" by auto
    ultimately obtain u where "has_id i u" "find_user i (splice1 n users) = Inr (Some u)"
      using find_user_present by blast
    with read show ?thesis by (auto simp: get_user_def)
  qed
  from lt id first del gone still show ?thesis unfolding splice1_def by blast
qed

theorem delete_then_get_witness:
  "delete_user ''u2'' (on_disk [ann, bob, cyd])
     = (Response 200 (SuccessNotice bob UserDeleted), on_disk [ann, cyd]) \<and>
   get_user ''u2'' (on_disk [ann, cyd])
     = (Response 404 (ErrorNotice UserNotFound), on_disk [ann, cyd])"
proof -
  have found: "findIndex ''u2'' [ann, bob, cyd] = Inr (Some 1)"
    by (simp add: ann_def bob_def getOwn_def)
  have one: "JNull \<notin> set [ann, bob, cyd] \<and> length (filter (has_id ''u2'') [ann, bob, cyd]) = 1"
    by (simp add: has_id_def ann_def bob_def cyd_def getOwn_def)
  have w: "writable (on_disk [ann, bob, cyd])" by (simp add: on_disk_def)
  from delete_then_get [OF readUsersFile_on_disk w found] one
  have "delete_user ''u2'' (on_disk [ann, bob, cyd])
      = (Response 200 (SuccessNotice ([ann, bob, cyd] ! 1) UserDeleted),
         (on_disk [ann, bob, cyd])\<lparr>contents :=
            Present (ArrayText (take 1 [ann, bob, cyd] @ drop (Suc 1) [ann, bob, cyd]))\<rparr>)"
    and "get_user ''u2'' ((on_disk [ann, bob, cyd])\<lparr>contents :=
            Present (ArrayText (take 1 [ann, bob, cyd] @ drop (Suc 1) [ann, bob, cyd]))\<rparr>)
      = (Response 404 (ErrorNotice UserNotFound),
         (on_disk [ann, bob, cyd])\<lparr>contents :=
            Present (ArrayText (take 1 [ann, bob, cyd] @ drop (Suc 1) [ann, bob, cyd]))\<rparr>)"
    by blast+
  then show ?thesis by (simp add: on_disk_def)
qed

text \<open>
  The claim as the specification words it, for every identifier present, fails: nothing
  keeps two stored records from carrying one identifier (the create operation does not
  check the generated one), DELETE removes the first of them only, and the GET that
  follows answers 200 with the second.
\<close>

theorem delete_first_of_two:
  "delete_user ''3b241101-e2bb-4255-8caf-4136c566a962'' (on_disk [kim, ann_created])
     = (Response 200 (SuccessNotice kim UserDeleted), on_disk [ann_created]) \<and>
   get_user ''3b241101-e2bb-4255-8caf-4136c566a962'' (on_disk [ann_created])
     = (Response 200 (Success ann_created), on_disk [ann_created])"
  by (simp add: delete_user_def get_user_def readUsersFile_on_disk writeUsersFile_def
      fs_writeFile_def splice1_def kim_def ann_created_def getOwn_def)
    (simp add: on_disk_def)

section \<open>Properties of the full update\<close>

lemma has_id_object:
  assumes "has_id i u"
  obtains kvs where "u = JObj kvs" "getOwn kvs ''id'' = Some (JStr i)"
  using assms by (cases u) (auto simp: has_id_def)

lemma distinct_updatedUser: "distinct (map fst (updatedUser old data t))"
  by (simp add: updatedUser_def distinct_setProp distinct_assign)

lemma getOwn_updatedUser:
  "getOwn (updatedUser (JObj old) data t) k =
     (if k = ''updatedAt'' then Some (JStr t)
      else (case getOwn (rev data) k of None \<Rightarrow> getOwn (rev old) k | Some v \<Rightarrow> Some v))"
  by (simp add: updatedUser_def getOwn_setProp getOwn_assign getOwn_Nil split: option.splits)

lemma updatedUser_again:
  "updatedUser (JObj (updatedUser old data t1)) data t2
     = setProp ''updatedAt'' (JStr t2) (updatedUser old data t1)"
proof -
  let ?X = "assign (assign [] (ownProps old)) data"
  let ?r1 = "setProp ''updatedAt'' (JStr t1) ?X"
  have r1: "updatedUser old data t1 = ?r1" by (simp add: updatedUser_def)
  have d1: "distinct (map fst ?r1)" by (simp add: distinct_setProp distinct_assign)
  then have same: "assign [] ?r1 = ?r1" using assign_fresh [of "[]" ?r1] by simp
  have "set (map fst data) \<subseteq> set (map fst ?X)" by (rule keys_assign_super)
  then have sub: "set (map fst data) \<subseteq> set (map fst ?r1)" by (auto simp: keys_setProp)
  then have keys: "map fst (assign ?r1 data) = map fst ?r1" by (rule keys_assign_known)
  have "setProp ''updatedAt'' (JStr t2) (assign ?r1 data) = setProp ''updatedAt'' (JStr t2) ?r1"
  proof (rule props_eqI)
    show "distinct (map fst (setProp ''updatedAt'' (JStr t2) (assign ?r1 data)))"
      using d1 by (simp add: distinct_setProp distinct_assign)
    show "map fst (setProp ''updatedAt'' (JStr t2) (assign ?r1 data))
        = map fst (setProp ''updatedAt'' (JStr t2) ?r1)"
      using keys by (simp add: keys_setProp)
    show "getOwn (setProp ''updatedAt'' (JStr t2) (assign ?r1 data)) k
        = getOwn (setProp ''updatedAt'' (JStr t2) ?r1) k" for k
      by (simp add: getOwn_setProp getOwn_assign split: option.splits)
  qed
  with same show ?thesis by (simp add: updatedUser_def)
qed

lemma findIndex_update:
  "findIndex i us = Inr (Some n) \<Longrightarrow> has_id i u' \<Longrightarrow> findIndex i (us[n := u']) = Inr (Some n)"
proof (induction us arbitrary: n)
  case Nil
  then show ?case by simp
next
  case (Cons u us)
  show ?case
  proof (cases "has_id i u")
    case True
    with Cons.prems show ?thesis by (auto simp: has_id_def)
  next
    case False
    with Cons.prems obtain v m where v: "getProp u ''id'' = Inr v" "v \<noteq> Some (JStr i)"
      and m: "findIndex i us = Inr (Some m)" and n: "n = Suc m"
      by (auto simp: has_id_def split: sum.splits if_splits option.splits)
    from Cons.IH [OF m Cons.prems(2)] v n show ?thesis by simp
  qed
qed

lemma put_user_found:
  assumes "validateUserData p body = Inr val"
    and "readUsersFile d = (Inr users, d0)" and "writable d0"
    and "findIndex i users = Inr (Some n)"
  shows "put_user p i body t d
    = (Response 200 (Success (JObj (updatedUser (users ! n) val t))),
       d0\<lparr>contents := Present (ArrayText (users[n := JObj (updatedUser (users ! n) val t)]))\<rparr>)"
  using assms by (simp add: put_user_def writeUsersFile_def fs_writeFile_def)

lemma readUsersFile_Present:
  "contents d = Present (ArrayText us) \<Longrightarrow> readUsersFile d = (Inr us, d)"
  by (simp add: readUsersFile_def fs_readFile_def JSON_parse_def)

lemma ann_body_valid:
  "validateUserData sample ann_body
     = Inr [(''firstName'', JStr ''Ann''), (''lastName'', JStr ''Lee''), (''age'', JNum 30),
            (''email'', JStr ''a@b.com''), (''hobbies'', JArr []), (''isActive'', JBool True)]"
  by (simp add: validateUserData_def validate_object_def userSchema_def validate_key_def
      validate_number_def MAX_SAFE_INTEGER_def unknown_keys_def ann_body_def getOwn_def
      sample_def plain_email_def)

lemma on_disk_simps:
  "writable (on_disk us)"
  "(on_disk us)\<lparr>contents := Present (ArrayText vs)\<rparr> = on_disk vs"
  by (simp_all add: on_disk_def)

lemma put_user_on_disk:
  assumes "validateUserData p body = Inr val" and "findIndex i us = Inr (Some n)"
  shows "put_user p i body t (on_disk us)
    = (Response 200 (Success (JObj (updatedUser (us ! n) val t))),
       on_disk (us[n := JObj (updatedUser (us ! n) val t)]))"
  using put_user_found [OF assms(1) readUsersFile_on_disk _ assms(2)]
  by (simp add: on_disk_simps)

lemma put_ann_body:
  "put_user sample ''u1'' ann_body ''2024-05-02T10:00:00.000Z'' (on_disk [ann, bob])
     = (Response 200 (Success ann_later), on_disk [ann_later, bob])"
proof -
  have "findIndex ''u1'' [ann, bob] = Inr (Some 0)"
    by (simp add: ann_def getOwn_def)
  from put_user_on_disk [OF ann_body_valid this] show ?thesis
    by (simp add: updatedUser_def ann_def ann_later_def)
qed

text \<open>
  Claim C8. For a body that validates and an identifier found in the collection, a
  second identical PUT answers 200 again, and the record it persists (in the same
  place) is the record the first PUT persisted with only \<open>updatedAt\<close> set to the
  time of the second request.
\<close>

theorem put_user_twice:
  assumes "validateUserData p body = Inr val"
    and "readUsersFile d = (Inr users, d0)" and "writable d0"
    and "findIndex i users = Inr (Some n)" and "proper (users ! n)"
  shows "\<exists>r1 d1.
           put_user p i body t1 d = (Response 200 (Success (JObj r1)), d1) \<and>
           contents d1 = Present (ArrayText (users[n := JObj r1])) \<and>
           put_user p i body t2 d1
             = (Response 200 (Success (JObj (setProp ''updatedAt'' (JStr t2) r1))),
                d1\<lparr>contents :=
                     Present (ArrayText (users[n := JObj (setProp ''updatedAt'' (JStr t2) r1)]))\<rparr>)"
proof -
  let ?r1 = "updatedUser (users ! n) val t1"
  let ?d1 = "d0\<lparr>contents := Present (ArrayText (users[n := JObj ?r1]))\<rparr>"
  have first: "put_user p i body t1 d = (Response 200 (Success (JObj ?r1)), ?d1)"
    using assms(1-4) by (rule put_user_found)
  from assms(4) have lt: "n < length users" and id: "has_id i (users ! n)"
    using findIndex_Some by blast+
  from id obtain old where old: "users ! n = JObj old" "getOwn old ''id'' = Some (JStr i)"
    by (rule has_id_object)
  from assms(5) old have dist: "distinct (map fst old)" by (simp add: proper_def)
  from assms(1) have "getOwn val ''id'' = None"
    by (intro validated_no_key [of p body]) (simp_all add: validateUserData_Inr fieldNames_def)
  then have "getOwn (rev val) ''id'' = None" by (simp add: getOwn_rev_None)
  with old dist have "getOwn ?r1 ''id'' = Some (JStr i)"
    by (simp add: getOwn_updatedUser getOwn_rev)
  then have "has_id i (JObj ?r1)" by (simp add: has_id_def)
  with assms(4) have found: "findIndex i (users[n := JObj ?r1]) = Inr (Some n)"
    by (rule findIndex_update)
  have "readUsersFile ?d1 = (Inr (users[n := JObj ?r1]), ?d1)"
    by (simp add: readUsersFile_Present)
  moreover from assms(3) have "writable ?d1" by simp
  ultimately have "put_user p i body t2 ?d1
      = (Response 200 (Success (JObj (updatedUser ((users[n := JObj ?r1]) ! n) val t2))),
         ?d1\<lparr>contents := Present (ArrayText
            ((users[n := JObj ?r1])[n := JObj (updatedUser ((users[n := JObj ?r1]) ! n) val t2)]))\<rparr>)"
    using assms(1) found by (intro put_user_found)
  with lt have second: "put_user p i body t2 ?d1
      = (Response 200 (Success (JObj (setProp ''updatedAt'' (JStr t2) ?r1))),
         ?d1\<lparr>contents := Present (ArrayText
            (users[n := JObj (setProp ''updatedAt'' (JStr t2) ?r1)]))\<rparr>)"
    by (simp add: updatedUser_again)
  have "contents ?d1 = Present (ArrayText (users[n := JObj ?r1]))" by simp
  with first second show ?thesis by blast
qed

theorem put_user_twice_witness:
  "put_user sample ''u1'' ann_body ''2024-05-02T10:00:00.000Z'' (on_disk [ann, bob])
     = (Response 200 (Success ann_later), on_disk [ann_later, bob]) \<and>
   put_user sample ''u1'' ann_body ''2024-05-03T10:00:00.000Z'' (on_disk [ann_later, bob])
     = (Response 200 (Success ann_latest), on_disk [ann_latest, bob])"
proof -
  have "findIndex ''u1'' [ann, bob] = Inr (Some 0)"
    by (simp add: ann_def getOwn_def)
  moreover have "proper ([ann, bob] ! 0)" by (simp add: proper_def ann_def)
  moreover have "writable (on_disk [ann, bob])" by (simp add: on_disk_def)
  ultimately obtain r1 d1 where
    1: "put_user sample ''u1'' ann_body ''2024-05-02T10:00:00.000Z'' (on_disk [ann, bob])
      = (Response 200 (Success (JObj r1)), d1)"
    and 2: "put_user sample ''u1'' ann_body ''2024-05-03T10:00:00.000Z'' d1
      = (Response 200 (Success (JObj (setProp ''updatedAt'' (JStr ''2024-05-03T10:00:00.000Z'') r1))),
         d1\<lparr>contents := Present (ArrayText
            ([ann, bob][0 := JObj (setProp ''updatedAt'' (JStr ''2024-05-03T10:00:00.000Z'') r1)]))\<rparr>)"
    using put_user_twice [OF ann_body_valid readUsersFile_on_disk, of "[ann, bob]" "''u1''" 0
        "''2024-05-02T10:00:00.000Z''" "''2024-05-03T10:00:00.000Z''"]
    by blast
  have first: "put_user sample ''u1'' ann_body ''2024-05-02T10:00:00.000Z'' (on_disk [ann, bob])
      = (Response 200 (Success ann_later), on_disk [ann_later, bob])"
    by (rule put_ann_body)
  with 1 have "JObj r1 = ann_later" and "d1 = on_disk [ann_later, bob]" by simp_all
  with 2 first show ?thesis
    by (auto simp: ann_later_def ann_latest_def on_disk_def)
qed


text \<open>
  Claim C5, as the code has it. A PUT with a valid body on an existing identifier
  persists, in the record's place, the old record overwritten by the validated body:
  \<open>id\<close> and \<open>createdAt\<close> are kept, \<open>updatedAt\<close> is the time of the request,
  \<open>firstName\<close>, \<open>lastName\<close>, \<open>age\<close>, \<open>email\<close>, \<open>hobbies\<close> and
  \<open>isActive\<close> are those of the validated body (which always has them), and \<open>city\<close>
  is the body's when the body has one and the old record's otherwise.
\<close>

theorem put_user_merges:
  assumes "validateUserData p body = Inr val" and "proper body"
    and "readUsersFile d = (Inr users, d0)" and "writable d0"
    and "findIndex i users = Inr (Some n)" and "proper (users ! n)"
  shows "\<exists>old r.
           users ! n = JObj old \<and>
           put_user p i body t d
             = (Response 200 (Success (JObj r)),
                d0\<lparr>contents := Present (ArrayText (users[n := JObj r]))\<rparr>) \<and>
           getOwn r ''id'' = Some (JStr i) \<and>
           getOwn r ''createdAt'' = getOwn old ''createdAt'' \<and>
           getOwn r ''updatedAt'' = Some (JStr t) \<and>
           (\<forall>k\<in>{''firstName'', ''lastName'', ''age'', ''email'', ''hobbies'', ''isActive''}.
              getOwn val k \<noteq> None \<and> getOwn r k = getOwn val k) \<and>
           getOwn r ''city''
             = (case getOwn val ''city'' of None \<Rightarrow> getOwn old ''city'' | Some c \<Rightarrow> Some c)"
proof -
  from assms(1) have v: "validate_object p userSchema body = Inr val"
    by (simp add: validateUserData_Inr)
  from assms(5) have "has_id i (users ! n)" using findIndex_Some by blast
  then obtain old where old: "users ! n = JObj old" "getOwn old ''id'' = Some (JStr i)"
    by (rule has_id_object)
  from assms(6) old have dist: "distinct (map fst old)" by (simp add: proper_def)
  from v assms(2) have distv: "distinct (map fst val)" by (rule validated_distinct)
  let ?r = "updatedUser (JObj old) val t"
  have r: "getOwn ?r k =
      (if k = ''updatedAt'' then Some (JStr t)
       else (case getOwn val k of None \<Rightarrow> getOwn old k | Some x \<Rightarrow> Some x))" for k
    using dist distv by (simp add: getOwn_updatedUser getOwn_rev split: option.splits)
  have no: "getOwn val ''id'' = None" "getOwn val ''createdAt'' = None"
    using v by (auto intro!: validated_no_key simp: fieldNames_def)
  have "put_user p i body t d
      = (Response 200 (Success (JObj ?r)), d0\<lparr>contents := Present (ArrayText (users[n := JObj ?r]))\<rparr>)"
    using put_user_found [OF assms(1,3,4,5)] old by simp
  moreover have "getOwn ?r ''id'' = Some (JStr i)" using old no by (simp add: r)
  moreover have "getOwn ?r ''createdAt'' = getOwn old ''createdAt''" using no by (simp add: r)
  moreover have "getOwn ?r ''updatedAt'' = Some (JStr t)" by (simp add: r)
  moreover have "\<forall>k\<in>{''firstName'', ''lastName'', ''age'', ''email'', ''hobbies'', ''isActive''}.
      getOwn val k \<noteq> None \<and> getOwn ?r k = getOwn val k"
    using validated_fields [OF v] by (auto simp: r)
  moreover have "getOwn ?r ''city''
      = (case getOwn val ''city'' of None \<Rightarrow> getOwn old ''city'' | Some c \<Rightarrow> Some c)"
    by (simp add: r)
  ultimately show ?thesis using old(1) by blast
qed

theorem put_user_merges_witness:
  "put_user sample ''u1'' ann_body ''2024-05-02T10:00:00.000Z'' (on_disk [ann, bob])
     = (Response 200 (Success ann_later), on_disk [ann_later, bob])"
proof -
  have "findIndex ''u1'' [ann, bob] = Inr (Some 0)"
    by (simp add: ann_def getOwn_def)
  moreover have "proper ann_body" and "proper ([ann, bob] ! 0)"
    by (simp_all add: proper_def ann_body_def ann_def)
  moreover have "writable (on_disk [ann, bob])" by (simp add: on_disk_def)
  ultimately obtain old r where "[ann, bob] ! 0 = JObj old"
    and put: "put_user sample ''u1'' ann_body ''2024-05-02T10:00:00.000Z'' (on_disk [ann, bob])
      = (Response 200 (Success (JObj r)),
         (on_disk [ann, bob])\<lparr>contents := Present (ArrayText ([ann, bob][0 := JObj r]))\<rparr>)"
    using put_user_merges [OF ann_body_valid _ readUsersFile_on_disk, of "[ann, bob]" "''u1''" 0
        "''2024-05-02T10:00:00.000Z''"]
    by blast
  then show ?thesis by (simp add: put_ann_body)
qed

text \<open>
  The claim as the specification words it fails: a PUT whose body has no \<open>city\<close>
  leaves the record's \<open>city\<close> where it was.
\<close>

theorem put_user_keeps_city:
  "getProp ann_body ''city'' = Inr None \<and>
   put_user sample ''u1'' ann_body ''2024-05-02T10:00:00.000Z'' (on_disk [ann, bob])
     = (Response 200 (Success ann_later), on_disk [ann_later, bob]) \<and>
   getProp ann_later ''city'' = Inr (Some (JStr ''Paris''))"
  by (simp add: put_ann_body) (simp add: ann_body_def ann_later_def getOwn_def)

section \<open>Properties of the create operation\<close>

lemma find_user_append:
  "JNull \<notin> set us \<Longrightarrow> filter (has_id i) us = [] \<Longrightarrow> has_id i u \<Longrightarrow>
   find_user i (us @ [u]) = Inr (Some u)"
proof (induction us)
  case Nil
  then show ?case by (simp add: has_id_def)
next
  case (Cons a us)
  then show ?case
    by (cases a) (auto simp: has_id_def split: if_splits)
qed

lemma getOwn_Cons:
  "getOwn ((k', v) # kvs) k = (if k = k' then Some v else getOwn kvs k)"
  by (simp add: getOwn_def)

lemma getOwn_newUser:
  "getOwn (newUser uuid val t1 t2) k =
     (if k = ''updatedAt'' then Some (JStr t2)
      else if k = ''createdAt'' then Some (JStr t1)
      else (case getOwn (rev val) k of
              None \<Rightarrow> (if k = ''id'' then Some (JStr uuid) else None)
            | Some v \<Rightarrow> Some v))"
  by (simp add: newUser_def getOwn_setProp getOwn_assign getOwn_Cons getOwn_Nil
      split: option.splits)

lemma post_user_valid:
  assumes "validateUserData p body = Inr val"
    and "readUsersFile d = (Inr users, d0)" and "writable d0"
  shows "post_user p body uuid t1 t2 d
    = (Response 201 (Success (JObj (newUser uuid val t1 t2))),
       d0\<lparr>contents := Present (ArrayText (users @ [JObj (newUser uuid val t1 t2)]))\<rparr>)"
  using assms by (simp add: post_user_def writeUsersFile_def fs_writeFile_def)

text \<open>
  Claim C3, as the code has it. A POST with a valid body, on a disk that takes the
  write, answers 201 with a record that carries the generated identifier, the first
  reading of the clock as \<open>createdAt\<close> and the second as \<open>updatedAt\<close>, and appends
  it to the collection. When no stored record carries that identifier already (and no
  element is null), a GET of the identifier returns the new record.
\<close>

theorem post_user_creates:
  assumes "validateUserData p body = Inr val"
    and "readUsersFile d = (Inr users, d0)" and "writable d0"
  shows "\<exists>r d1.
           post_user p body uuid t1 t2 d = (Response 201 (Success (JObj r)), d1) \<and>
           contents d1 = Present (ArrayText (users @ [JObj r])) \<and>
           getOwn r ''id'' = Some (JStr uuid) \<and>
           getOwn r ''createdAt'' = Some (JStr t1) \<and>
           getOwn r ''updatedAt'' = Some (JStr t2) \<and>
           (JNull \<notin> set users \<and> filter (has_id uuid) users = [] \<longrightarrow>
              get_user uuid d1 = (Response 200 (Success (JObj r)), d1))"
proof -
  let ?r = "newUser uuid val t1 t2"
  let ?d1 = "d0\<lparr>contents := Present (ArrayText (users @ [JObj ?r]))\<rparr>"
  from assms(1) have v: "validate_object p userSchema body = Inr val"
    by (simp add: validateUserData_Inr)
  have "getOwn val ''id'' = None"
    using v by (rule validated_no_key) (simp add: fieldNames_def)
  then have "getOwn (rev val) ''id'' = None" by (simp add: getOwn_rev_None)
  then have id: "getOwn ?r ''id'' = Some (JStr uuid)"
    by (simp add: getOwn_newUser)
  have get: "get_user uuid ?d1 = (Response 200 (Success (JObj ?r)), ?d1)"
    if "JNull \<notin> set users" and "filter (has_id uuid) users = []"
  proof -
    from id have "has_id uuid (JObj ?r)" by (simp add: has_id_def)
    with that have "find_user uuid (users @ [JObj ?r]) = Inr (Some (JObj ?r))"
      by (rule find_user_append)
    then show ?thesis by (simp add: get_user_def readUsersFile_Present)
  qed
  have "post_user p body uuid t1 t2 d = (Response 201 (Success (JObj ?r)), ?d1)"
    using assms by (rule post_user_valid)
  moreover have "contents ?d1 = Present (ArrayText (users @ [JObj ?r]))" by simp
  moreover have "getOwn ?r ''createdAt'' = Some (JStr t1)" "getOwn ?r ''updatedAt'' = Some (JStr t2)"
    by (simp_all add: getOwn_newUser)
  ultimately show ?thesis using id get by blast
qed

lemma post_user_on_disk:
  assumes "validateUserData p body = Inr val"
  shows "post_user p body uuid t1 t2 (on_disk us)
    = (Response 201 (Success (JObj (newUser uuid val t1 t2))),
       on_disk (us @ [JObj (newUser uuid val t1 t2)]))"
  using post_user_valid [OF assms readUsersFile_on_disk] by (simp add: on_disk_simps)

lemma post_ann_body:
  "post_user sample ann_body ''3b241101-e2bb-4255-8caf-4136c566a962''
     ''2024-05-01T09:59:59.999Z'' ''2024-05-01T10:00:00.000Z'' (on_disk us)
   = (Response 201 (Success ann_created), on_disk (us @ [ann_created]))"
  by (simp add: post_user_on_disk [OF ann_body_valid] newUser_def ann_created_def)

theorem post_user_creates_witness:
  "post_user sample ann_body ''3b241101-e2bb-4255-8caf-4136c566a962''
     ''2024-05-01T09:59:59.999Z'' ''2024-05-01T10:00:00.000Z'' (on_disk [bob])
   = (Response 201 (Success ann_created), on_disk [bob, ann_created]) \<and>
   get_user ''3b241101-e2bb-4255-8caf-4136c566a962'' (on_disk [bob, ann_created])
   = (Response 200 (Success ann_created), on_disk [bob, ann_created])"
proof -
  obtain r d1 where
    post: "post_user sample ann_body ''3b241101-e2bb-4255-8caf-4136c566a962''
       ''2024-05-01T09:59:59.999Z'' ''2024-05-01T10:00:00.000Z'' (on_disk [bob])
       = (Response 201 (Success (JObj r)), d1)"
    and get: "JNull \<notin> set [bob] \<and>
       filter (has_id ''3b241101-e2bb-4255-8caf-4136c566a962'') [bob] = [] \<longrightarrow>
       get_user ''3b241101-e2bb-4255-8caf-4136c566a962'' d1
         = (Response 200 (Success (JObj r)), d1)"
    using post_user_creates [where users = "[bob]"
        and uuid = "''3b241101-e2bb-4255-8caf-4136c566a962''"
        and ?t1.0 = "''2024-05-01T09:59:59.999Z''" and ?t2.0 = "''2024-05-01T10:00:00.000Z''",
        OF ann_body_valid readUsersFile_on_disk on_disk_simps(1)]
    by blast
  have "JNull \<notin> set [bob]"
    and "filter (has_id ''3b241101-e2bb-4255-8caf-4136c566a962'') [bob] = []"
    by (simp_all add: bob_def has_id_def getOwn_def)
  with get have "get_user ''3b241101-e2bb-4255-8caf-4136c566a962'' d1
      = (Response 200 (Success (JObj r)), d1)" by blast
  moreover from post have "JObj r = ann_created" and "d1 = on_disk [bob, ann_created]"
    by (simp_all add: post_ann_body)
  ultimately show ?thesis by (simp add: post_ann_body)
qed

text \<open>
  The claim as the specification words it fails: the generator's identifier is not
  checked against the collection, so it can be one that is already there, and then GET
  returns the older record; and the two readings of the clock can differ.
\<close>

theorem post_user_id_taken:
  "has_id ''3b241101-e2bb-4255-8caf-4136c566a962'' kim \<and>
   post_user sample ann_body ''3b241101-e2bb-4255-8caf-4136c566a962''
     ''2024-05-01T09:59:59.999Z'' ''2024-05-01T10:00:00.000Z'' (on_disk [kim])
   = (Response 201 (Success ann_created), on_disk [kim, ann_created]) \<and>
   getProp ann_created ''id'' = Inr (Some (JStr ''3b241101-e2bb-4255-8caf-4136c566a962'')) \<and>
   getProp ann_created ''createdAt'' \<noteq> getProp ann_created ''updatedAt'' \<and>
   get_user ''3b241101-e2bb-4255-8caf-4136c566a962'' (on_disk [kim, ann_created])
   = (Response 200 (Success kim), on_disk [kim, ann_created]) \<and>
   kim \<noteq> ann_created"
  by (simp add: post_ann_body)
    (simp add: has_id_def kim_def ann_created_def getOwn_def get_user_def readUsersFile_on_disk)

section \<open>Properties of the partial update\<close>

lemma findIndex_ann: "findIndex ''u1'' [ann, bob] = Inr (Some 0)"
  by (simp add: ann_def getOwn_def)

lemma city_only_invalid:
  "validate_object sample userSchema city_only
     = Inl [Detail (Key ''firstName'') AnyRequired, Detail (Key ''lastName'') AnyRequired,
            Detail (Key ''age'') AnyRequired, Detail (Key ''email'') AnyRequired]"
  by (simp add: validate_object_def userSchema_def validate_key_def unknown_keys_def
      city_only_def getOwn_def sample_def)

lemma required_key_present:
  assumes "validate_object p userSchema (JObj kvs) = Inr val"
    and "ks \<in> set userSchema" and "required ks"
  shows "getOwn kvs (kname ks) \<noteq> None"
proof
  assume "getOwn kvs (kname ks) = None"
  with assms(3) have "fst (validate_key p kvs ks) \<noteq> []" by (simp add: validate_key_def)
  moreover from assms(1,2) have "validate_key p kvs ks = ([], getOwn val (kname ks))"
    by (simp add: validated_value distinct_userSchema)
  ultimately show False by simp
qed

lemma patch_user_needs_required:
  assumes "patch_user p i body t d = (Response 200 pl, d')"
  shows "\<exists>kvs. body = JObj kvs \<and> getOwn kvs ''firstName'' \<noteq> None \<and>
    getOwn kvs ''lastName'' \<noteq> None \<and> getOwn kvs ''age'' \<noteq> None \<and>
    getOwn kvs ''email'' \<noteq> None"
proof -
  from assms obtain val where "validate_object p userSchema body = Inr val"
    by (auto simp: patch_user_def split: prod.splits sum.splits option.splits)
  moreover from this obtain kvs where "body = JObj kvs" by (rule validate_object_Inr)
  ultimately have v: "validate_object p userSchema (JObj kvs) = Inr val" and b: "body = JObj kvs"
    by simp_all
  from
    required_key_present [OF v, of "KeySchema ''firstName'' (JoiString [StrMin 2, StrMax 50]) True None"]
    required_key_present [OF v, of "KeySchema ''lastName'' (JoiString [StrMin 2, StrMax 50]) True None"]
    required_key_present [OF v, of "KeySchema ''age'' (JoiNumber [NumMin 1, NumMax 120]) True None"]
    required_key_present [OF v, of "KeySchema ''email'' (JoiString [StrEmail]) True None"]
  have "getOwn kvs ''firstName'' \<noteq> None" "getOwn kvs ''lastName'' \<noteq> None"
    "getOwn kvs ''age'' \<noteq> None" "getOwn kvs ''email'' \<noteq> None"
    by (simp_all add: userSchema_def)
  with b show ?thesis by blast
qed

text \<open>
  Claim C1. The partial update is to accept a body with a subset of the fields, such as
  a city alone, when the old record overwritten by the body satisfies the schema, and
  to answer 200. The handler does not: it finds the record, then puts the body alone
  through \<^verbatim>\<open>userSchema\<close>, whose four required keys the body lacks, and answers 422
  with nothing written, although the schema fields of the merged object (the old record
  overwritten by the body, without \<open>id\<close>, \<open>createdAt\<close> and \<open>updatedAt\<close>) pass the
  schema. By \<open>patch_user_needs_required\<close> no body without all four required keys is
  ever answered 200.
\<close>

theorem patch_user_city_only:
  "findIndex ''u1'' [ann, bob] = Inr (Some 0) \<and>
   patch_user sample ''u1'' city_only ''2024-05-02T10:00:00.000Z'' (on_disk [ann, bob])
     = (Response 422
          (ErrorFields [Entry (Key ''firstName'') AnyRequired, Entry (Key ''lastName'') AnyRequired,
                        Entry (Key ''age'') AnyRequired, Entry (Key ''email'') AnyRequired]),
        on_disk [ann, bob]) \<and>
   assign (assign [] (ownProps ann)) (ownProps city_only)
     = [(''id'', JStr ''u1'')] @ ownProps ann_moved_fields @
       [(''createdAt'', JStr ''2024-05-01T10:00:00.000Z''),
        (''updatedAt'', JStr ''2024-05-01T10:00:00.000Z'')] \<and>
   validate_object sample userSchema ann_moved_fields = Inr (ownProps ann_moved_fields)"
  by (simp add: findIndex_ann patch_user_def readUsersFile_on_disk city_only_invalid
      error_entries_def)
    (simp add: validate_object_def userSchema_def validate_key_def
      validate_number_def MAX_SAFE_INTEGER_def unknown_keys_def getOwn_def
      sample_def plain_email_def ann_moved_fields_def ann_def city_only_def error_entries_def)

section \<open>Properties of validation in create and full update\<close>

lemma keys_setProp_set: "set (map fst (setProp k v kvs)) = insert k (set (map fst kvs))"
  by (auto simp: keys_setProp)

lemma keys_assign_set: "set (map fst (assign tgt src)) = set (map fst tgt) \<union> set (map fst src)"
proof (induction src arbitrary: tgt)
  case Nil
  then show ?case by simp
next
  case (Cons a src)
  obtain k v where a: "a = (k, v)" by (cases a)
  show ?case
    using Cons.IH [of "setProp k v tgt"] keys_setProp_set [of k v tgt] by (auto simp: a)
qed

lemma keys_newUser:
  "set (map fst (newUser uuid val t1 t2))
     = set (map fst val) \<union> {''id'', ''createdAt'', ''updatedAt''}"
  unfolding newUser_def keys_setProp_set keys_assign_set by auto

lemma validate_object_unknown:
  assumes "k \<in> fst ` set kvs" and "k \<notin> set (map kname kss)"
  shows "\<exists>ds. validate_object p kss (JObj kvs) = Inl ds \<and> Detail (Key k) ObjectUnknown \<in> set ds"
proof -
  from assms have "Detail (Key k) ObjectUnknown \<in> set (unknown_keys kss kvs)"
    by (auto simp: unknown_keys_def)
  then show ?thesis
    by (cases "validate_keys p kss kvs") (auto simp: validate_object_def)
qed

lemma post_user_invalid:
  "validate_object p userSchema body = Inl ds \<Longrightarrow>
   post_user p body uuid t1 t2 d = (Response 422 (ErrorFields (error_entries ds)), d)"
  by (simp add: post_user_def validateUserData_def)


lemma post_user_201:
  assumes "post_user p body uuid t1 t2 d = (Response 201 (Success (JObj r)), d')"
  obtains val where "validate_object p userSchema body = Inr val" "r = newUser uuid val t1 t2"
  using assms
  by (auto simp: post_user_def validateUserData_def split: sum.splits prod.splits)

text \<open>
  Claim C2, as the code has it. A create request whose body has a key outside the schema
  is rejected: the answer is 422 with an error entry for that key, and nothing is
  written. A record that a create request does persist has only keys of the schema and
  \<open>id\<close>, \<open>createdAt\<close>, \<open>updatedAt\<close>.
\<close>

theorem unknown_field_rejected:
  "(k \<in> fst ` set kvs \<and> k \<notin> set fieldNames \<longrightarrow>
      (\<exists>es. post_user p (JObj kvs) uuid t1 t2 d = (Response 422 (ErrorFields es), d) \<and>
            Entry (Key k) ObjectUnknown \<in> set es)) \<and>
   (post_user p body uuid t1 t2 d = (Response 201 (Success (JObj r)), d') \<longrightarrow>
      set (map fst r) \<subseteq> set fieldNames \<union> {''id'', ''createdAt'', ''updatedAt''})"
proof (intro conjI impI)
  assume "k \<in> fst ` set kvs \<and> k \<notin> set fieldNames"
  then obtain ds where ds: "validate_object p userSchema (JObj kvs) = Inl ds"
    and k: "Detail (Key k) ObjectUnknown \<in> set ds"
    using validate_object_unknown [of k kvs userSchema p] by (auto simp: names_userSchema)
  from k have "Entry (Key k) ObjectUnknown \<in> set (error_entries ds)"
    by (force simp: error_entries_def)
  with post_user_invalid [OF ds]
  show "\<exists>es. post_user p (JObj kvs) uuid t1 t2 d = (Response 422 (ErrorFields es), d) \<and>
      Entry (Key k) ObjectUnknown \<in> set es"
    by blast
next
  assume "post_user p body uuid t1 t2 d = (Response 201 (Success (JObj r)), d')"
  then obtain val where v: "validate_object p userSchema body = Inr val"
    and r: "r = newUser uuid val t1 t2"
    by (rule post_user_201)
  from v have "set (map fst val) \<subseteq> set fieldNames"
    using validated_keys [of p userSchema body val] by (simp add: names_userSchema)
  then show "set (map fst r) \<subseteq> set fieldNames \<union> {''id'', ''createdAt'', ''updatedAt''}"
    unfolding r keys_newUser by auto
qed

lemma nick_body_invalid:
  "validate_object sample userSchema nick_body = Inl [Detail (Key ''nickname'') ObjectUnknown]"
  by (simp add: validate_object_def userSchema_def validate_key_def
      validate_number_def MAX_SAFE_INTEGER_def unknown_keys_def nick_body_def getOwn_def
      sample_def plain_email_def)

theorem unknown_field_rejected_witness:
  "post_user sample nick_body ''3b241101-e2bb-4255-8caf-4136c566a962''
     ''2024-05-01T09:59:59.999Z'' ''2024-05-01T10:00:00.000Z'' (on_disk [bob])
   = (Response 422 (ErrorFields [Entry (Key ''nickname'') ObjectUnknown]), on_disk [bob]) \<and>
   set (map fst (ownProps ann_created))
     \<subseteq> set fieldNames \<union> {''id'', ''createdAt'', ''updatedAt''}"
proof -
  note inst = unknown_field_rejected [where p = sample
      and uuid = "''3b241101-e2bb-4255-8caf-4136c566a962''"
      and ?t1.0 = "''2024-05-01T09:59:59.999Z''" and ?t2.0 = "''2024-05-01T10:00:00.000Z''"
      and d = "on_disk [bob]" and k = "''nickname''" and kvs = "ownProps nick_body"
      and body = ann_body and r = "ownProps ann_created" and d' = "on_disk [bob, ann_created]"]
  have "''nickname'' \<in> fst ` set (ownProps nick_body) \<and> ''nickname'' \<notin> set fieldNames"
    by (simp add: nick_body_def fieldNames_def)
  with inst obtain es where
    "post_user sample (JObj (ownProps nick_body)) ''3b241101-e2bb-4255-8caf-4136c566a962''
       ''2024-05-01T09:59:59.999Z'' ''2024-05-01T10:00:00.000Z'' (on_disk [bob])
     = (Response 422 (ErrorFields es), on_disk [bob])"
    by blast
  moreover have "JObj (ownProps nick_body) = nick_body" by (simp add: nick_body_def)
  ultimately have 1: "post_user sample nick_body ''3b241101-e2bb-4255-8caf-4136c566a962''
       ''2024-05-01T09:59:59.999Z'' ''2024-05-01T10:00:00.000Z'' (on_disk [bob])
     = (Response 422 (ErrorFields [Entry (Key ''nickname'') ObjectUnknown]), on_disk [bob])"
    by (simp add: post_user_invalid [OF nick_body_invalid] error_entries_def)
  have "JObj (ownProps ann_created) = ann_created" by (simp add: ann_created_def)
  with inst post_ann_body [of "[bob]"]
  have 2: "set (map fst (ownProps ann_created))
      \<subseteq> set fieldNames \<union> {''id'', ''createdAt'', ''updatedAt''}"
    by simp
  from 1 2 show ?thesis by simp
qed

text \<open>
  The claim as the specification words it fails: a body that satisfies every
  constraint and has one more key is not normalised with the key dropped, it is
  rejected.
\<close>

theorem unknown_field_not_dropped:
  "validate_object sample userSchema ann_body = Inr (ownProps ann_body @
      [(''hobbies'', JArr []), (''isActive'', JBool True)]) \<and>
   ownProps nick_body = ownProps ann_body @ [(''nickname'', JStr ''annie'')] \<and>
   post_user sample nick_body ''3b241101-e2bb-4255-8caf-4136c566a962''
     ''2024-05-01T09:59:59.999Z'' ''2024-05-01T10:00:00.000Z'' (on_disk [bob])
   = (Response 422 (ErrorFields [Entry (Key ''nickname'') ObjectUnknown]), on_disk [bob])"
  using ann_body_valid
  by (simp add: post_user_invalid [OF nick_body_invalid] error_entries_def validateUserData_Inr)
    (simp add: ann_body_def nick_body_def)





































end
